theory Spec2Isabelle
  imports Main "HOL-Library.Word" "HOL-Library.Multiset"
begin

unbundle bit_operations_syntax

section \<open>Bytes, strings and the standard-library interface\<close>

text \<open>
  Python \<open>bytes\<close> are lists of 8-bit words.  A Python \<open>str\<close> is modelled by the list of
  its UTF-8 code units (an Isabelle \<open>string\<close>), so that \<open>s.encode("utf-8")\<close> is a
  byte-for-byte copy and concatenation of strings is concatenation of lists.
\<close>

type_synonym byte = "8 word"
type_synonym bytes = "byte list"

definition utf8 :: "string \<Rightarrow> bytes" where
  "utf8 s = map of_char s"

text \<open>\<open>s.encode("ascii")\<close> raises \<open>UnicodeEncodeError\<close> on a code unit above 127;
  \<open>b.decode("ascii")\<close> raises \<open>UnicodeDecodeError\<close> on a byte above 127.\<close>

definition ascii_encode :: "string \<Rightarrow> bytes option" where
  "ascii_encode s = (if list_all (\<lambda>c. (of_char c :: nat) < 128) s then Some (map of_char s) else None)"

definition ascii_decode :: "bytes \<Rightarrow> string option" where
  "ascii_decode bs = (if list_all (\<lambda>b. unat b < 128) bs then Some (map (\<lambda>b. char_of (unat b)) bs) else None)"

text \<open>Lower-case hexadecimal, as \<open>hexdigest()\<close> prints a digest; \<open>hex_digit\<close> is only
  applied to numbers below 16.\<close>

definition hex_digit :: "nat \<Rightarrow> char" where
  "hex_digit n = ''0123456789abcdef'' ! n"

definition hex :: "bytes \<Rightarrow> string" where
  "hex bs = concat (map (\<lambda>b. [hex_digit (unat b div 16), hex_digit (unat b mod 16)]) bs)"

text \<open>\<open>str(n)\<close> for a Python integer: decimal digits, with a leading minus sign.\<close>

function str_nat :: "nat \<Rightarrow> string" where
  "str_nat n = (if n < 10 then [''0123456789'' ! n] else str_nat (n div 10) @ [''0123456789'' ! (n mod 10)])"
  by pat_completeness auto
termination
  by (relation "measure id") auto

declare str_nat.simps [simp del]

definition str_int :: "int \<Rightarrow> string" where
  "str_int i = (if i < 0 then CHR ''-'' # str_nat (nat (- i)) else str_nat (nat i))"

text \<open>\<open>n.to_bytes(4, "big")\<close>, for \<open>0 \<le> n < 2 ^ 32\<close>; beyond that Python raises
  \<open>OverflowError\<close>, which the caller below turns into an error value.\<close>

definition to_bytes4 :: "nat \<Rightarrow> bytes" where
  "to_bytes4 n = [of_nat (n div 2 ^ 24), of_nat (n div 2 ^ 16), of_nat (n div 2 ^ 8), of_nat n]"

text \<open>
  The functions of Python's standard library that the code calls are not part of the
  repository.  They are parameters of the model; \<open>'d\<close> is the type of JSON-serialisable
  values.
  \<^item> \<open>sha256 m\<close> is \<open>hashlib.sha256(m).digest()\<close>;
  \<^item> \<open>hmac_sha256 k m\<close> is \<open>hmac.new(k, m, hashlib.sha256).digest()\<close>;
  \<^item> \<open>pbkdf2_hmac_sha256 p s n l\<close> is \<open>hashlib.pbkdf2_hmac("sha256", p, s, n, dklen=l)\<close>;
  \<^item> \<open>urlsafe_b64encode\<close> and \<open>urlsafe_b64decode\<close> are the functions of module
    \<open>base64\<close>, the latter returning \<open>None\<close> where Python raises \<open>binascii.Error\<close>;
  \<^item> \<open>json_dumps d\<close> is \<open>json.dumps(d, separators=(",", ":")).encode("utf-8")\<close>, and
    \<open>json_loads b\<close> is \<open>json.loads(b.decode("utf-8"))\<close>, \<open>None\<close> where that raises.
\<close>

record 'd stdlib =
  sha256 :: "bytes \<Rightarrow> bytes"
  hmac_sha256 :: "bytes \<Rightarrow> bytes \<Rightarrow> bytes"
  pbkdf2_hmac_sha256 :: "bytes \<Rightarrow> bytes \<Rightarrow> nat \<Rightarrow> nat \<Rightarrow> bytes"
  urlsafe_b64encode :: "bytes \<Rightarrow> bytes"
  urlsafe_b64decode :: "bytes \<Rightarrow> bytes option"
  json_dumps :: "'d \<Rightarrow> bytes"
  json_loads :: "bytes \<Rightarrow> 'd option"

text \<open>What the proofs use of the library: digests are 32 bytes long, and base64 output is
  ASCII and decodes to what was encoded.  Nothing is assumed of \<open>json\<close>: Python's
  \<open>json.loads(json.dumps(d))\<close> is not \<open>d\<close> for every \<open>d\<close> (a tuple comes back as a list, a
  key that is not a string as a string).\<close>

definition stdlib_ok :: "'d stdlib \<Rightarrow> bool" where
  "stdlib_ok lib \<longleftrightarrow>
     (\<forall>m. length (sha256 lib m) = 32) \<and>
     (\<forall>k m. length (hmac_sha256 lib k m) = 32) \<and>
     (\<forall>x. list_all (\<lambda>b. unat b < 128) (urlsafe_b64encode lib x)) \<and>
     (\<forall>x. urlsafe_b64decode lib (urlsafe_b64encode lib x) = Some x)"

definition hexdigest :: "'d stdlib \<Rightarrow> bytes \<Rightarrow> string" where
  "hexdigest lib m = hex (sha256 lib m)"

section \<open>Errors\<close>

text \<open>One constructor per \<open>raise\<close> of the source (and per library exception that can
  escape), named after the error kinds of the specification.\<close>

datatype error =
    MalformedToken          \<comment> \<open>\<open>ValueError("Token was not valid base64")\<close>\<close>
  | IntegrityError          \<comment> \<open>\<open>ValueError("Ciphertext integrity check failed")\<close>\<close>
  | CounterOverflow         \<comment> \<open>\<open>OverflowError\<close> of \<open>counter.to_bytes(4, "big")\<close>\<close>
  | TokenNotAscii           \<comment> \<open>\<open>UnicodeDecodeError\<close> of \<open>.decode("ascii")\<close> in \<open>encrypt\<close>\<close>
  | PageOverflow            \<comment> \<open>\<open>ValueError("Page overflow detected")\<close>\<close>
  | NoSegments              \<comment> \<open>\<open>ValueError("At least one segment is required ...")\<close>\<close>
  | EmptySegment            \<comment> \<open>\<open>ValueError("Segments must be non-empty bytes-like objects")\<close>\<close>
  | EnclaveNotInitialized   \<comment> \<open>\<open>RuntimeError("Enclave not initialized")\<close>\<close>
  | UnknownOperation        \<comment> \<open>\<open>AttributeError("Unknown ECALL: ...")\<close>\<close>
  | IdentityRequired        \<comment> \<open>\<open>ValueError("identity is required")\<close>\<close>
  | NoSealedData            \<comment> \<open>\<open>KeyError("No sealed data for identity")\<close>\<close>
  | JSONDecodeError         \<comment> \<open>\<open>json.loads\<close> or \<open>.decode("utf-8")\<close> raising\<close>
  | PageNotFound            \<comment> \<open>\<open>KeyError("Page missing")\<close>\<close>
  | PageIntegrityError      \<comment> \<open>\<open>ValueError("Integrity check failed for page")\<close>\<close>
  | VmNotFound              \<comment> \<open>\<open>KeyError("VM not found")\<close>\<close>
  | TypeError               \<comment> \<open>a call whose arguments do not fit the callee\<close>

section \<open>KMSMock (server/security/kms\_mock.py)\<close>

record kms_mock =
  master_secret :: bytes
  cache :: "string \<rightharpoonup> bytes"

text \<open>\<open>derive_key\<close> returns the key and the service with its cache as the call leaves it.\<close>

definition derive_key :: "'d stdlib \<Rightarrow> kms_mock \<Rightarrow> string \<Rightarrow> string \<Rightarrow> bytes \<times> kms_mock" where
  "derive_key lib kms identity context =
     (let cache_key = identity @ '':'' @ context in
      case cache kms cache_key of
        Some k \<Rightarrow> (k, kms)
      | None \<Rightarrow>
          (let salt = sha256 lib (utf8 context);
               key = pbkdf2_hmac_sha256 lib (utf8 identity) salt 200000 32;
               wrapped = hmac_sha256 lib (master_secret kms) key
           in (wrapped, kms\<lparr>cache := (cache kms)(cache_key \<mapsto> wrapped)\<rparr>)))"

text \<open>The \<open>while\<close> loop of \<open>_expand_keystream\<close>.  It stops when the stream is long enough
  or when the counter no longer fits four bytes, so it terminates for every library.\<close>

function expand_loop :: "'d stdlib \<Rightarrow> bytes \<Rightarrow> nat \<Rightarrow> bytes \<Rightarrow> nat \<Rightarrow> error + bytes" where
  "expand_loop lib material len stream counter =
     (if length stream < len then
        (if counter < 2 ^ 32
         then expand_loop lib material len (stream @ sha256 lib (material @ to_bytes4 counter)) (counter + 1)
         else Inl CounterOverflow)
      else Inr (take len stream))"
  by pat_completeness auto
termination
  by (relation "measure (\<lambda>(lib, material, len, stream, counter). 2 ^ 32 - counter)") auto

declare expand_loop.simps [simp del]

definition expand_keystream :: "'d stdlib \<Rightarrow> bytes \<Rightarrow> bytes \<Rightarrow> nat \<Rightarrow> error + bytes" where
  "expand_keystream lib key iv len = expand_loop lib (key @ iv) len [] 0"

definition xor_bytes :: "bytes \<Rightarrow> bytes \<Rightarrow> bytes" where
  "xor_bytes xs ks = map (\<lambda>(p, k). p XOR k) (zip xs ks)"

text \<open>\<open>encrypt\<close>; the argument \<open>iv\<close> is the value of \<open>os.urandom(16)\<close>.\<close>

definition encrypt :: "'d stdlib \<Rightarrow> bytes \<Rightarrow> bytes \<Rightarrow> bytes \<Rightarrow> error + string" where
  "encrypt lib key plaintext iv =
     (case expand_keystream lib key iv (length plaintext) of
        Inl e \<Rightarrow> Inl e
      | Inr keystream \<Rightarrow>
          (let ciphertext = xor_bytes plaintext keystream;
               mac = hmac_sha256 lib key (iv @ ciphertext)
           in case ascii_decode (urlsafe_b64encode lib (iv @ ciphertext @ mac)) of
                None \<Rightarrow> Inl TokenNotAscii
              | Some token \<Rightarrow> Inr token))"

text \<open>The decoding step of \<open>decrypt\<close>: both exceptions of the \<open>try\<close> block become
  \<open>MalformedToken\<close>.\<close>

definition decode_token :: "'d stdlib \<Rightarrow> string \<Rightarrow> bytes option" where
  "decode_token lib token =
     (case ascii_encode token of
        None \<Rightarrow> None
      | Some raw \<Rightarrow> urlsafe_b64decode lib raw)"

text \<open>The two slicing lines of \<open>decrypt\<close>: \<open>iv, rest = data[:16], data[16:]\<close> and
  \<open>ciphertext, mac = rest[:-32], rest[-32:]\<close>.  A negative slice bound is clamped at
  the start of the list, which is what truncating subtraction on \<open>nat\<close> computes.\<close>

definition split_token :: "bytes \<Rightarrow> bytes \<times> bytes \<times> bytes" where
  "split_token data =
     (let iv = take 16 data;
          rest = drop 16 data;
          ciphertext = take (length rest - 32) rest;
          mac = drop (length rest - 32) rest
      in (iv, ciphertext, mac))"

definition decrypt :: "'d stdlib \<Rightarrow> bytes \<Rightarrow> string \<Rightarrow> error + bytes" where
  "decrypt lib key token =
     (case decode_token lib token of
        None \<Rightarrow> Inl MalformedToken
      | Some data \<Rightarrow>
          (case split_token data of (iv, ciphertext, mac) \<Rightarrow>
             (let candidate = hmac_sha256 lib key (iv @ ciphertext)
              in if candidate \<noteq> mac then Inl IntegrityError
                 else (case expand_keystream lib key iv (length ciphertext) of
                         Inl e \<Rightarrow> Inl e
                       | Inr keystream \<Rightarrow> Inr (xor_bytes ciphertext keystream)))))"

section \<open>A small instance of the library interface\<close>

text \<open>
  To run the model on concrete inputs the library parameters need values.  \<open>toy_lib\<close> is
  such an instance: its digests pad or cut their input to 32 bytes, its transport encoding
  writes each byte as two letters \<open>a\<close> to \<open>p\<close>, and its JSON values are their own text.
  It is not SHA-256 and is used only where the behaviour shown does not depend on the
  hash; every general theorem below holds for all libraries satisfying \<open>stdlib_ok\<close>.
\<close>

definition toy_digest :: "bytes \<Rightarrow> bytes" where
  "toy_digest m = take 32 (m @ replicate 32 0)"

definition toy_b64encode :: "bytes \<Rightarrow> bytes" where
  "toy_b64encode bs = concat (map (\<lambda>b. [of_nat (97 + unat b div 16), of_nat (97 + unat b mod 16)]) bs)"

fun toy_b64decode :: "bytes \<Rightarrow> bytes option" where
  "toy_b64decode [] = Some []"
| "toy_b64decode [h] = None"
| "toy_b64decode (h # l # rest) =
     (if 97 \<le> unat h \<and> unat h < 113 \<and> 97 \<le> unat l \<and> unat l < 113
      then map_option ((#) (of_nat ((unat h - 97) * 16 + (unat l - 97)))) (toy_b64decode rest)
      else None)"

definition toy_lib :: "bytes stdlib" where
  "toy_lib = \<lparr> sha256 = toy_digest,
               hmac_sha256 = (\<lambda>k m. toy_digest (k @ m)),
               pbkdf2_hmac_sha256 = (\<lambda>p s n l. take l (p @ s @ replicate l 0)),
               urlsafe_b64encode = toy_b64encode,
               urlsafe_b64decode = toy_b64decode,
               json_dumps = (\<lambda>d. d),
               json_loads = Some \<rparr>"

section \<open>SimulatedEnclave (server/simulation/enclave\_runtime.py)\<close>

record memory_page =
  page_address :: nat
  page_size :: nat
  page_data :: bytes

definition page_write :: "memory_page \<Rightarrow> bytes \<Rightarrow> error + memory_page" where
  "page_write page content =
     (if length content > page_size page then Inl PageOverflow
      else Inr (page\<lparr>page_data := content\<rparr>))"

definition page_read :: "memory_page \<Rightarrow> bytes" where
  "page_read page = page_data page"

record attestation_report =
  report_mrenclave :: string
  report_signer :: string
  nonce :: string
  policy_version :: string

record simulated_enclave =
  name :: string
  signer :: string
  pages :: "memory_page list"
  loaded :: bool
  mrenclave :: string
  sealed_store :: "string \<rightharpoonup> string"

text \<open>\<open>SimulatedEnclave.__init__\<close>.\<close>

definition new_enclave :: "string \<Rightarrow> string \<Rightarrow> simulated_enclave" where
  "new_enclave n s =
     \<lparr> name = n, signer = s, pages = [], loaded = False, mrenclave = [], sealed_store = Map.empty \<rparr>"

text \<open>\<open>_measure\<close>: successive \<open>hasher.update\<close> calls hash the concatenation of their
  arguments.\<close>

definition enclave_measure :: "'d stdlib \<Rightarrow> simulated_enclave \<Rightarrow> memory_page list \<Rightarrow> string" where
  "enclave_measure lib e ps =
     hexdigest lib (concat (map page_data ps) @ utf8 (name e) @ utf8 (signer e))"

definition load :: "'d stdlib \<Rightarrow> simulated_enclave \<Rightarrow> bytes list \<Rightarrow> error + simulated_enclave \<times> string" where
  "load lib e segments =
     (if segments = [] then Inl NoSegments
      else if list_ex (\<lambda>seg. length seg = 0) segments then Inl EmptySegment
      else
        (let ps = map (\<lambda>(i, seg). \<lparr> page_address = i * 0x1000, page_size = length seg, page_data = seg \<rparr>)
                      (enumerate 0 segments);
             m = enclave_measure lib (e\<lparr>pages := ps\<rparr>) ps
         in Inr (e\<lparr>pages := ps, mrenclave := m, loaded := True\<rparr>, m)))"

definition enter :: "simulated_enclave \<Rightarrow> (simulated_enclave \<Rightarrow> 'a) \<Rightarrow> error + 'a" where
  "enter e handler = (if \<not> loaded e then Inl EnclaveNotInitialized else Inr (handler e))"

record 'p ocall_result =
  call :: string
  echo :: 'p

definition ocall :: "simulated_enclave \<Rightarrow> string \<Rightarrow> 'p \<Rightarrow> 'p ocall_result" where
  "ocall e n payload = \<lparr> call = n, echo = payload \<rparr>"

text \<open>
  \<open>seal\<close> and \<open>unseal\<close> use the process-wide \<open>kms_singleton\<close>, whose cache they may fill.
  They take the service as an argument and return it beside their result.  A result
  \<open>Inl err\<close> is a raised exception: the enclave is then as it was before the call.
  The argument \<open>iv\<close> of \<open>seal\<close> is the value \<open>os.urandom(16)\<close> returns inside \<open>encrypt\<close>.
\<close>

definition seal ::
  "'d stdlib \<Rightarrow> kms_mock \<Rightarrow> simulated_enclave \<Rightarrow> string \<Rightarrow> 'd \<Rightarrow> bytes
     \<Rightarrow> (error + simulated_enclave \<times> string) \<times> kms_mock" where
  "seal lib kms e identity d iv =
     (if identity = [] then (Inl IdentityRequired, kms)
      else
        (case derive_key lib kms identity (mrenclave e) of (key, kms') \<Rightarrow>
           (let blob = json_dumps lib d in
            case encrypt lib key blob iv of
              Inl err \<Rightarrow> (Inl err, kms')
            | Inr token \<Rightarrow>
                (Inr (e\<lparr>sealed_store := (sealed_store e)(identity \<mapsto> token)\<rparr>, token), kms'))))"

definition unseal ::
  "'d stdlib \<Rightarrow> kms_mock \<Rightarrow> simulated_enclave \<Rightarrow> string \<Rightarrow> (error + 'd) \<times> kms_mock" where
  "unseal lib kms e identity =
     (case sealed_store e identity of
        None \<Rightarrow> (Inl NoSealedData, kms)
      | Some token \<Rightarrow>
          (case derive_key lib kms identity (mrenclave e) of (key, kms') \<Rightarrow>
             (case decrypt lib key token of
                Inl err \<Rightarrow> (Inl err, kms')
              | Inr blob \<Rightarrow>
                  (case json_loads lib blob of
                     None \<Rightarrow> (Inl JSONDecodeError, kms')
                   | Some d \<Rightarrow> (Inr d, kms')))))"

text \<open>The value of \<open>json.loads(json.dumps(d))\<close>, which is what \<open>unseal\<close> hands back for data
  \<open>d\<close> that \<open>seal\<close> serialised.\<close>

definition json_roundtrip :: "'d stdlib \<Rightarrow> 'd \<Rightarrow> error + 'd" where
  "json_roundtrip lib d =
     (case json_loads lib (json_dumps lib d) of
        None \<Rightarrow> Inl JSONDecodeError
      | Some d' \<Rightarrow> Inr d')"

text \<open>\<open>attest\<close>; the argument \<open>n\<close> is the value of \<open>secrets.token_hex(16)\<close>.\<close>

definition attest :: "simulated_enclave \<Rightarrow> string \<Rightarrow> string \<Rightarrow> attestation_report" where
  "attest e pv n =
     \<lparr> report_mrenclave = mrenclave e, report_signer = signer e, nonce = n, policy_version = pv \<rparr>"

subsection \<open>ECALL dispatch\<close>

text \<open>
  \<open>ecall\<close> looks the name up with \<open>getattr(self, name, None)\<close> and calls what it finds if
  that is callable.  An instance has its six data fields, none of them callable, the
  methods its class defines, and whatever Python's \<open>object\<close> provides (\<open>__repr__\<close>,
  \<open>__eq__\<close>, \<open>__setattr__\<close>, \<dots>).  The last group belongs to the Python runtime: it is the
  parameter \<open>inherited\<close>, which maps a name to the effect of calling that attribute, or to
  \<open>None\<close> if \<open>object\<close> has no callable attribute of that name.

  Positional arguments are values of type \<open>pyval\<close>, results of type \<open>retval\<close>.  A call
  whose arguments do not fit the annotated signature of the method is answered with
  \<open>TypeError\<close>; \<open>enter\<close> expects a callable, which no \<open>pyval\<close> is.
\<close>

datatype 'd pyval = PStr string | PSegments "bytes list" | PPages "memory_page list" | PData 'd

datatype 'd retval =
    RNone | RStr string | RData 'd | RReport attestation_report | REcho "'d ocall_result"
  | ROther "'d pyval"

datatype py_method =
    M_init | M_load | M_measure | M_enter | M_ecall | M_ocall | M_seal | M_unseal | M_attest

definition data_fields :: "string list" where
  "data_fields = [''name'', ''signer'', ''pages'', ''loaded'', ''mrenclave'', ''sealed_store'']"

definition class_methods :: "(string \<times> py_method) list" where
  "class_methods =
     [(''__init__'', M_init), (''load'', M_load), (''_measure'', M_measure), (''enter'', M_enter),
      (''ecall'', M_ecall), (''ocall'', M_ocall), (''seal'', M_seal), (''unseal'', M_unseal),
      (''attest'', M_attest)]"

type_synonym 'd outcome = "(error + simulated_enclave \<times> 'd retval) \<times> kms_mock"

type_synonym 'd inherited =
  "string \<Rightarrow> ('d pyval list \<Rightarrow> kms_mock \<Rightarrow> simulated_enclave \<Rightarrow> 'd outcome) option"

datatype 'd handler =
    Own py_method
  | Inherited "'d pyval list \<Rightarrow> kms_mock \<Rightarrow> simulated_enclave \<Rightarrow> 'd outcome"

text \<open>\<open>getattr(self, name, None)\<close> followed by the test
  \<open>handler is None or not callable(handler)\<close>: \<open>None\<close> where that test raises.\<close>

definition getattr_callable :: "'d inherited \<Rightarrow> string \<Rightarrow> 'd handler option" where
  "getattr_callable inherited n =
     (if n \<in> set data_fields then None
      else case map_of class_methods n of
             Some m \<Rightarrow> Some (Own m)
           | None \<Rightarrow> map_option Inherited (inherited n))"

text \<open>Calling a method of the class other than \<open>ecall\<close> itself.\<close>

definition invoke ::
  "'d stdlib \<Rightarrow> kms_mock \<Rightarrow> simulated_enclave \<Rightarrow> py_method \<Rightarrow> 'd pyval list \<Rightarrow> bytes \<Rightarrow> string
     \<Rightarrow> 'd outcome" where
  "invoke lib kms e m args iv n =
     (case (m, args) of
        (M_init, [PStr nm]) \<Rightarrow> (Inr (new_enclave nm ''lab'', RNone), kms)
      | (M_init, [PStr nm, PStr sg]) \<Rightarrow> (Inr (new_enclave nm sg, RNone), kms)
      | (M_load, [PSegments segs]) \<Rightarrow>
          (case load lib e segs of
             Inl err \<Rightarrow> (Inl err, kms)
           | Inr (e', m) \<Rightarrow> (Inr (e', RStr m), kms))
      | (M_measure, [PPages ps]) \<Rightarrow> (Inr (e, RStr (enclave_measure lib e ps)), kms)
      | (M_enter, [h]) \<Rightarrow>
          (if \<not> loaded e then (Inl EnclaveNotInitialized, kms) else (Inl TypeError, kms))
      | (M_ocall, [PStr nm, PData payload]) \<Rightarrow> (Inr (e, REcho (ocall e nm payload)), kms)
      | (M_seal, [PStr identity, PData d]) \<Rightarrow>
          (case seal lib kms e identity d iv of
             (Inl err, kms') \<Rightarrow> (Inl err, kms')
           | (Inr (e', token), kms') \<Rightarrow> (Inr (e', RStr token), kms'))
      | (M_unseal, [PStr identity]) \<Rightarrow>
          (case unseal lib kms e identity of
             (Inl err, kms') \<Rightarrow> (Inl err, kms')
           | (Inr d, kms') \<Rightarrow> (Inr (e, RData d), kms'))
      | (M_attest, []) \<Rightarrow> (Inr (e, RReport (attest e ''v1'' n)), kms)
      | (M_attest, [PStr pv]) \<Rightarrow> (Inr (e, RReport (attest e pv n)), kms)
      | _ \<Rightarrow> (Inl TypeError, kms))"

text \<open>\<open>ecall\<close>.  When the name is \<open>ecall\<close> itself the first remaining argument is the next
  name, so the recursion is on the argument list.\<close>

fun ecall ::
  "'d stdlib \<Rightarrow> 'd inherited \<Rightarrow> kms_mock \<Rightarrow> simulated_enclave \<Rightarrow> string \<Rightarrow> 'd pyval list
     \<Rightarrow> bytes \<Rightarrow> string \<Rightarrow> 'd outcome" where
  "ecall lib inherited kms e nm [] iv n =
     (case getattr_callable inherited nm of
        None \<Rightarrow> (Inl UnknownOperation, kms)
      | Some (Inherited f) \<Rightarrow> f [] kms e
      | Some (Own M_ecall) \<Rightarrow> (Inl TypeError, kms)
      | Some (Own m) \<Rightarrow> invoke lib kms e m [] iv n)"
| "ecall lib inherited kms e nm (a # args) iv n =
     (case getattr_callable inherited nm of
        None \<Rightarrow> (Inl UnknownOperation, kms)
      | Some (Inherited f) \<Rightarrow> f (a # args) kms e
      | Some (Own M_ecall) \<Rightarrow>
          (case a of
             PStr nm' \<Rightarrow> ecall lib inherited kms e nm' args iv n
           | _ \<Rightarrow> (Inl TypeError, kms))
      | Some (Own m) \<Rightarrow> invoke lib kms e m (a # args) iv n)"

subsection \<open>EnclaveRegistry\<close>

record enclave_registry =
  instances :: "string \<rightharpoonup> simulated_enclave"

definition get_or_create ::
  "'d stdlib \<Rightarrow> enclave_registry \<Rightarrow> string \<Rightarrow> error + enclave_registry \<times> simulated_enclave" where
  "get_or_create lib reg n =
     (case instances reg n of
        Some e \<Rightarrow> Inr (reg, e)
      | None \<Rightarrow>
          (case load lib (new_enclave n ''lab'') [utf8 ''init''] of
             Inl err \<Rightarrow> Inl err
           | Inr (e, m) \<Rightarrow> Inr (reg\<lparr>instances := (instances reg)(n \<mapsto> e)\<rparr>, e)))"

section \<open>EncryptedMemory (sev/encrypted\_memory.py)\<close>


record encrypted_page =
  page_id :: int
  ciphertext :: string
  mac :: string

record encrypted_memory =
  mem_vm_id :: string
  mem_pages :: "(int \<times> encrypted_page) list"

definition derive_page_key :: "'d stdlib \<Rightarrow> kms_mock \<Rightarrow> string \<Rightarrow> int \<Rightarrow> bytes \<times> kms_mock" where
  "derive_page_key lib kms vid pid = derive_key lib kms (''vm:'' @ vid) (str_int pid)"

definition page_mac :: "'d stdlib \<Rightarrow> string \<Rightarrow> string" where
  "page_mac lib token = hexdigest lib (utf8 token)"

definition verify :: "'d stdlib \<Rightarrow> string \<Rightarrow> string \<Rightarrow> bool" where
  "verify lib token m \<longleftrightarrow> page_mac lib token = m"


text \<open>\<open>read\<close>, in the order of the source: look the page up, derive the key, decrypt,
  and only then compare the stored digest.\<close>

definition mem_read ::
  "'d stdlib \<Rightarrow> kms_mock \<Rightarrow> encrypted_memory \<Rightarrow> int \<Rightarrow> (error + bytes) \<times> kms_mock" where
  "mem_read lib kms mem pid =
     (case map_of (mem_pages mem) pid of
        None \<Rightarrow> (Inl PageNotFound, kms)
      | Some page \<Rightarrow>
          (case derive_page_key lib kms (mem_vm_id mem) pid of (key, kms') \<Rightarrow>
             (case decrypt lib key (ciphertext page) of
                Inl err \<Rightarrow> (Inl err, kms')
              | Inr d \<Rightarrow>
                  (if \<not> verify lib (ciphertext page) (mac page) then (Inl PageIntegrityError, kms')
                   else (Inr d, kms')))))"

section \<open>SimulatedVM (sev/vm\_model.py)\<close>

record vcpu_state =
  vcpu_id :: nat
  registers :: "(string \<times> int) list"

record simulated_vm =
  vm_id :: string
  owner :: string
  memory :: encrypted_memory
  vcpus :: "vcpu_state list"
  measurement :: "string option"


text \<open>What \<open>measure\<close> feeds the hasher for one entry of \<open>sorted(self.memory.pages.items())\<close>.\<close>

definition page_contribution :: "int \<times> encrypted_page \<Rightarrow> bytes" where
  "page_contribution = (\<lambda>(pid, page). utf8 (ciphertext page) @ utf8 (mac page) @ utf8 (str_int pid))"

definition measured_bytes :: "simulated_vm \<Rightarrow> bytes" where
  "measured_bytes vm =
     utf8 (vm_id vm) @ utf8 (owner vm) @
     concat (map page_contribution (sort_key fst (mem_pages (memory vm))))"

definition vm_measure :: "'d stdlib \<Rightarrow> simulated_vm \<Rightarrow> simulated_vm \<times> string" where
  "vm_measure lib vm =
     (let m = hexdigest lib (measured_bytes vm)
      in (vm\<lparr>measurement := Some m\<rparr>, m))"



section \<open>SevLaunchManager (sev/launch\_flow.py)\<close>








section \<open>A reload scenario\<close>

text \<open>
  The enclave \<open>demo\<close> is loaded with the single segment \<open>01 02\<close>, seals \<open>{}\<close> for
  \<open>alice\<close>, and is then loaded again with the two segments \<open>01\<close> and \<open>02\<close>.
\<close>

definition demo_kms :: kms_mock where
  "demo_kms = \<lparr> master_secret = [9], cache = Map.empty \<rparr>"

definition demo_first :: simulated_enclave where
  "demo_first = fst (projr (load toy_lib (new_enclave ''demo'' ''lab'') [[1, 2]]))"

definition demo_sealing :: "(error + simulated_enclave \<times> string) \<times> kms_mock" where
  "demo_sealing = seal toy_lib demo_kms demo_first ''alice'' [123, 125] (replicate 16 7)"

definition demo_sealed :: simulated_enclave where
  "demo_sealed = fst (projr (fst demo_sealing))"

definition demo_token :: string where
  "demo_token = snd (projr (fst demo_sealing))"

definition demo_kms_after :: kms_mock where
  "demo_kms_after = snd demo_sealing"

definition demo_reloaded :: simulated_enclave where
  "demo_reloaded = fst (projr (load toy_lib demo_sealed [[1], [2]]))"

section \<open>A library instance with Python's JSON on sequences of integers\<close>

text \<open>
  \<open>json.dumps\<close> writes a Python list and a Python tuple alike as a JSON array, and
  \<open>json.loads\<close> reads a JSON array as a list.  \<open>py_lib\<close> is the small library instance with
  this behaviour: its data are lists and tuples of integers, \<open>py_json_dumps\<close> writes the
  compact text \<open>json.dumps(d, separators=(",", ":"))\<close> gives for them, and
  \<open>py_json_loads\<close> parses such compact arrays of integers (any other document denotes a
  value outside this data type and is answered with \<open>None\<close>).
\<close>

datatype py_seq = PyList "int list" | PyTuple "int list"

fun py_items :: "py_seq \<Rightarrow> int list" where
  "py_items (PyList xs) = xs"
| "py_items (PyTuple xs) = xs"

fun join_commas :: "string list \<Rightarrow> string" where
  "join_commas [] = []"
| "join_commas [s] = s"
| "join_commas (s # t # ss) = s @ '','' @ join_commas (t # ss)"

definition py_json_dumps :: "py_seq \<Rightarrow> bytes" where
  "py_json_dumps d = utf8 (''['' @ join_commas (map str_int (py_items d)) @ '']'')"

fun split_commas :: "string \<Rightarrow> string list" where
  "split_commas [] = [[]]"
| "split_commas (c # cs) =
     (if c = CHR '','' then [] # split_commas cs
      else (case split_commas cs of
              [] \<Rightarrow> [[c]]
            | w # ws \<Rightarrow> (c # w) # ws))"

fun parse_digits :: "nat \<Rightarrow> string \<Rightarrow> nat option" where
  "parse_digits acc [] = Some acc"
| "parse_digits acc (c # cs) =
     (if 48 \<le> (of_char c :: nat) \<and> (of_char c :: nat) \<le> 57
      then parse_digits (10 * acc + (of_char c - 48)) cs
      else None)"

text \<open>A JSON integer: an optional minus sign and digits, without a leading zero unless
  the number is zero.\<close>

definition parse_nat :: "string \<Rightarrow> nat option" where
  "parse_nat s =
     (if s = [] \<or> (hd s = CHR ''0'' \<and> length s > 1) then None else parse_digits 0 s)"

definition parse_int :: "string \<Rightarrow> int option" where
  "parse_int s =
     (case s of
        [] \<Rightarrow> None
      | c # cs \<Rightarrow>
          (if c = CHR ''-'' then map_option (\<lambda>n. - int n) (parse_nat cs)
           else map_option int (parse_nat s)))"

definition py_json_loads :: "bytes \<Rightarrow> py_seq option" where
  "py_json_loads b =
     (case ascii_decode b of
        None \<Rightarrow> None
      | Some s \<Rightarrow>
          (if length s < 2 \<or> hd s \<noteq> CHR ''['' \<or> last s \<noteq> CHR '']'' then None
           else
             (let inner = butlast (tl s)
              in if inner = [] then Some (PyList [])
                 else map_option PyList (those (map parse_int (split_commas inner))))))"

definition py_lib :: "py_seq stdlib" where
  "py_lib = \<lparr> sha256 = toy_digest,
              hmac_sha256 = (\<lambda>k m. toy_digest (k @ m)),
              pbkdf2_hmac_sha256 = (\<lambda>p s n l. take l (p @ s @ replicate l 0)),
              urlsafe_b64encode = toy_b64encode,
              urlsafe_b64decode = toy_b64decode,
              json_dumps = py_json_dumps,
              json_loads = py_json_loads \<rparr>"

text \<open>The loaded enclave \<open>demo_first\<close> seals the tuple \<open>(1, 2)\<close> for \<open>alice\<close>.\<close>

definition tuple_sealing :: "(error + simulated_enclave \<times> string) \<times> kms_mock" where
  "tuple_sealing = seal py_lib demo_kms demo_first ''alice'' (PyTuple [1, 2]) (replicate 16 7)"

definition tuple_sealed :: simulated_enclave where
  "tuple_sealed = fst (projr (fst tuple_sealing))"

definition tuple_token :: string where
  "tuple_token = snd (projr (fst tuple_sealing))"

definition tuple_kms_after :: kms_mock where
  "tuple_kms_after = snd tuple_sealing"

section \<open>A tampered page store\<close>

text \<open>A page store whose only page holds a token that is not ASCII (the UTF-8 code units
  of a letter e with an acute accent) and an empty digest: both the token and the stored digest are invalid.\<close>

definition tampered_memory :: encrypted_memory where
  "tampered_memory =
     \<lparr> mem_vm_id = ''vm1'',
       mem_pages = [(0, \<lparr> page_id = 0, ciphertext = [char_of (195 :: nat), char_of (169 :: nat)], mac = [] \<rparr>)] \<rparr>"

section \<open>Properties of the key service\<close>

subsection \<open>Keystream, exclusive-or and transport encoding\<close>

lemma expand_loop_returns:
  assumes "\<And>m. length (sha256 lib m) = 32"
  shows "length stream = 32 * counter \<Longrightarrow> len \<le> 32 * 2 ^ 32 \<Longrightarrow>
    \<exists>ks. expand_loop lib material len stream counter = Inr ks \<and> length ks = len"
  using assms
proof (induction lib material len stream counter rule: expand_loop.induct)
  case (1 lib material len stream counter)
  note len32 = "1.prems"(3)
  show ?case
  proof (cases "length stream < len")
    case False
    then show ?thesis by (subst expand_loop.simps) simp
  next
    case True
    with "1.prems" have c: "counter < 2 ^ 32" by simp
    have "\<exists>ks. expand_loop lib material len (stream @ sha256 lib (material @ to_bytes4 counter)) (counter + 1) = Inr ks \<and> length ks = len"
      by (rule "1.IH"[OF True c]) (use "1.prems" len32 in simp_all)
    then show ?thesis using True c by (subst expand_loop.simps) simp
  qed
qed

lemma expand_loop_overflows:
  assumes "\<And>m. length (sha256 lib m) = 32"
  shows "length stream = 32 * counter \<Longrightarrow> counter \<le> 2 ^ 32 \<Longrightarrow> 32 * 2 ^ 32 < len \<Longrightarrow>
    expand_loop lib material len stream counter = Inl CounterOverflow"
  using assms
proof (induction lib material len stream counter rule: expand_loop.induct)
  case (1 lib material len stream counter)
  note len32 = "1.prems"(4)
  from "1.prems" have lt: "length stream < len" by simp
  show ?case
  proof (cases "counter < 2 ^ 32")
    case False
    then show ?thesis using lt by (subst expand_loop.simps) simp
  next
    case True
    have "expand_loop lib material len (stream @ sha256 lib (material @ to_bytes4 counter)) (counter + 1) = Inl CounterOverflow"
      by (rule "1.IH"[OF lt True]) (use "1.prems" True len32 in simp_all)
    then show ?thesis using lt True by (subst expand_loop.simps) simp
  qed
qed

lemma xor_bytes_involution: "length ks = length xs \<Longrightarrow> xor_bytes (xor_bytes xs ks) ks = xs"
  unfolding xor_bytes_def
  by (induction xs ks rule: list_induct2') (auto simp: xor.assoc)

lemma length_xor_bytes: "length (xor_bytes xs ks) = min (length xs) (length ks)"
  by (simp add: xor_bytes_def)

lemma unat_byte_less: "unat (b :: byte) < 256"
  using unsigned_less [of b, where ?'a = nat] by simp

lemma nat_char_byte: "(of_char (char_of (unat b)) :: nat) = unat (b::byte)"
  using unat_byte_less [of b] by simp

lemma byte_char_byte: "(of_char (char_of (unat b)) :: byte) = b"
proof -
  have "(of_char (char_of (unat b)) :: byte) = of_nat (of_char (char_of (unat b)))"
    by (simp only: of_nat_of_char)
  also have "\<dots> = of_nat (unat b)" by (simp only: nat_char_byte)
  also have "\<dots> = b" by simp
  finally show ?thesis .
qed

lemma ascii_roundtrip:
  assumes "list_all (\<lambda>b. unat b < 128) bs"
  shows "ascii_decode bs = Some (map (\<lambda>b. char_of (unat b)) bs) \<and> ascii_encode (map (\<lambda>b. char_of (unat b)) bs) = Some bs"
  using assms
  by (auto simp: ascii_decode_def ascii_encode_def list_all_iff byte_char_byte nat_char_byte intro!: map_idI)

lemma expand_keystream_returns:
  assumes "stdlib_ok lib" "len \<le> 32 * 2 ^ 32"
  shows "\<exists>ks. expand_keystream lib key iv len = Inr ks \<and> length ks = len"
  unfolding expand_keystream_def
  by (rule expand_loop_returns) (use assms in \<open>simp_all add: stdlib_ok_def\<close>)

lemma expand_keystream_overflows:
  assumes "stdlib_ok lib" "32 * 2 ^ 32 < len"
  shows "expand_keystream lib key iv len = Inl CounterOverflow"
  unfolding expand_keystream_def
  by (rule expand_loop_overflows) (use assms in \<open>simp_all add: stdlib_ok_def\<close>)

lemma split_token_joined:
  assumes "length iv = 16" "length tag = 32"
  shows "split_token (iv @ ct @ tag) = (iv, ct, tag)"
  using assms by (simp add: split_token_def)

lemma encrypt_Inr:
  assumes "stdlib_ok lib" "encrypt lib key plaintext iv = Inr token"
  shows "\<exists>ks. expand_keystream lib key iv (length plaintext) = Inr ks \<and>
    decode_token lib token = Some (iv @ xor_bytes plaintext ks @ hmac_sha256 lib key (iv @ xor_bytes plaintext ks))"
proof -
  from assms(2) obtain ks where ks: "expand_keystream lib key iv (length plaintext) = Inr ks"
    by (auto simp: encrypt_def split: sum.splits)
  let ?data = "iv @ xor_bytes plaintext ks @ hmac_sha256 lib key (iv @ xor_bytes plaintext ks)"
  have ascii: "list_all (\<lambda>b. unat b < 128) (urlsafe_b64encode lib ?data)"
    using assms(1) by (simp add: stdlib_ok_def)
  note rt = ascii_roundtrip [OF ascii]
  from assms(2) ks rt have "token = map (\<lambda>b. char_of (unat b)) (urlsafe_b64encode lib ?data)"
    by (simp add: encrypt_def Let_def)
  with rt assms(1) have "decode_token lib token = Some ?data"
    by (simp add: decode_token_def stdlib_ok_def)
  with ks show ?thesis by blast
qed

subsection \<open>The small library instance satisfies the interface\<close>

lemma length_toy_digest: "length (toy_digest m) = 32"
  by (simp add: toy_digest_def)

lemma unat_small: "n < 256 \<Longrightarrow> unat (of_nat n :: byte) = n"
  by (simp add: unat_of_nat)

lemma toy_pair_roundtrip:
  "toy_b64decode (of_nat (97 + unat b div 16) # of_nat (97 + unat b mod 16) # rest)
     = map_option ((#) b) (toy_b64decode rest)"
proof -
  have lt: "unat b < 256" by (rule unat_byte_less)
  then have hi: "unat b div 16 < 16" by simp
  have h: "unat (of_nat (97 + unat b div 16) :: byte) = 97 + unat b div 16"
    by (rule unat_small) (use hi in simp)
  have l: "unat (of_nat (97 + unat b mod 16) :: byte) = 97 + unat b mod 16"
    by (rule unat_small) simp
  have "(of_nat (unat b div 16 * 16 + unat b mod 16) :: byte) = of_nat (unat b)"
    by (simp only: div_mult_mod_eq)
  then have v: "(of_nat (unat b div 16 * 16 + unat b mod 16) :: byte) = b" by simp
  have "toy_b64decode (of_nat (97 + unat b div 16) # of_nat (97 + unat b mod 16) # rest)
      = (if 97 \<le> unat (of_nat (97 + unat b div 16) :: byte) \<and> unat (of_nat (97 + unat b div 16) :: byte) < 113 \<and>
            97 \<le> unat (of_nat (97 + unat b mod 16) :: byte) \<and> unat (of_nat (97 + unat b mod 16) :: byte) < 113
         then map_option ((#) (of_nat ((unat (of_nat (97 + unat b div 16) :: byte) - 97) * 16 +
                 (unat (of_nat (97 + unat b mod 16) :: byte) - 97)))) (toy_b64decode rest)
         else None)"
    by (simp only: toy_b64decode.simps)
  also have "\<dots> = map_option ((#) b) (toy_b64decode rest)"
    unfolding h l using hi v by simp
  finally show ?thesis .
qed

lemma toy_b64_roundtrip: "toy_b64decode (toy_b64encode x) = Some x"
proof (induction x)
  case Nil
  then show ?case by (simp add: toy_b64encode_def)
next
  case (Cons b x)
  have "toy_b64encode (b # x) = of_nat (97 + unat b div 16) # of_nat (97 + unat b mod 16) # toy_b64encode x"
    by (simp add: toy_b64encode_def)
  then show ?case using Cons.IH by (simp only: toy_pair_roundtrip) simp
qed

lemma toy_b64_ascii: "list_all (\<lambda>b. unat b < 128) (toy_b64encode x)"
proof -
  have "unat (of_nat (97 + unat b div 16) :: byte) < 128 \<and> unat (of_nat (97 + unat b mod 16) :: byte) < 128" for b :: byte
  proof -
    have hi: "unat b div 16 < 16" using unat_byte_less [of b] by simp
    have "unat (of_nat (97 + unat b div 16) :: byte) = 97 + unat b div 16"
      by (rule unat_small) (use hi in simp)
    moreover have "unat (of_nat (97 + unat b mod 16) :: byte) = 97 + unat b mod 16"
      by (rule unat_small) simp
    ultimately show ?thesis using hi by simp
  qed
  then show ?thesis by (simp add: toy_b64encode_def list_all_iff)
qed

lemma toy_lib_ok: "stdlib_ok toy_lib"
  by (simp add: stdlib_ok_def toy_lib_def length_toy_digest toy_b64_roundtrip toy_b64_ascii)

subsection \<open>Round trip\<close>

lemma encrypt_returns:
  assumes "stdlib_ok lib" and "length plaintext \<le> 32 * 2 ^ 32"
  shows "\<exists>token. encrypt lib key plaintext iv = Inr token"
proof -
  from assms obtain ks where ks: "expand_keystream lib key iv (length plaintext) = Inr ks"
    using expand_keystream_returns [OF assms(1)] by blast
  let ?data = "iv @ xor_bytes plaintext ks @ hmac_sha256 lib key (iv @ xor_bytes plaintext ks)"
  have "list_all (\<lambda>b. unat b < 128) (urlsafe_b64encode lib ?data)"
    using assms(1) by (simp add: stdlib_ok_def)
  from ascii_roundtrip [OF this] ks show ?thesis
    by (simp add: encrypt_def Let_def)
qed

lemma encrypt_overflows:
  assumes "stdlib_ok lib" and "32 * 2 ^ 32 < length plaintext"
  shows "encrypt lib key plaintext iv = Inl CounterOverflow"
  using expand_keystream_overflows [OF assms, of key iv] by (simp add: encrypt_def)

lemma encrypt_then_decrypt:
  assumes "stdlib_ok lib" and "length iv = 16"
    and enc: "encrypt lib key plaintext iv = Inr token"
  shows "decrypt lib key token = Inr plaintext"
proof -
  from encrypt_Inr [OF assms(1) enc] obtain ks where
    ks: "expand_keystream lib key iv (length plaintext) = Inr ks" and
    dec: "decode_token lib token = Some (iv @ xor_bytes plaintext ks @ hmac_sha256 lib key (iv @ xor_bytes plaintext ks))"
    by blast
  have len: "length ks = length plaintext"
  proof (cases "length plaintext \<le> 32 * 2 ^ 32")
    case True
    from expand_keystream_returns [OF assms(1) True, of key iv] ks show ?thesis by simp
  next
    case False
    then have "expand_keystream lib key iv (length plaintext) = Inl CounterOverflow"
      by (intro expand_keystream_overflows [OF assms(1)]) simp
    with ks show ?thesis by simp
  qed
  have tag: "length (hmac_sha256 lib key (iv @ xor_bytes plaintext ks)) = 32"
    using assms(1) by (simp add: stdlib_ok_def)
  have sp: "split_token (iv @ xor_bytes plaintext ks @ hmac_sha256 lib key (iv @ xor_bytes plaintext ks))
      = (iv, xor_bytes plaintext ks, hmac_sha256 lib key (iv @ xor_bytes plaintext ks))"
    by (rule split_token_joined [OF assms(2) tag])
  have lx: "length (xor_bytes plaintext ks) = length plaintext"
    by (simp add: length_xor_bytes len)
  show ?thesis
    by (simp add: decrypt_def dec sp lx ks xor_bytes_involution len)
qed

text \<open>
  \<^bold>\<open>C1.\<close>  For every key, every plaintext and every 16-byte iv that \<open>encrypt\<close> draws:
  whenever \<open>encrypt\<close> produces a token, \<open>decrypt\<close> under the same key returns exactly the
  plaintext.  \<open>encrypt\<close> does produce a token for every plaintext of at most \<open>32 * 2 ^ 32\<close>
  bytes, the length at which the four-byte block counter of the keystream is exhausted.
\<close>

theorem encrypt_decrypt_roundtrip:
  assumes "stdlib_ok lib" and "length iv = 16"
  shows "(length plaintext \<le> 32 * 2 ^ 32 \<longrightarrow> (\<exists>token. encrypt lib key plaintext iv = Inr token)) \<and>
         (\<forall>token. encrypt lib key plaintext iv = Inr token \<longrightarrow> decrypt lib key token = Inr plaintext)"
proof (intro conjI impI allI)
  assume "length plaintext \<le> 32 * 2 ^ 32"
  with assms(1) show "\<exists>token. encrypt lib key plaintext iv = Inr token"
    by (rule encrypt_returns)
next
  fix token
  assume "encrypt lib key plaintext iv = Inr token"
  with assms show "decrypt lib key token = Inr plaintext"
    by (rule encrypt_then_decrypt)
qed

theorem encrypt_decrypt_roundtrip_witness:
  "stdlib_ok toy_lib \<and> length (replicate 16 (7 :: byte)) = 16 \<and>
   (\<exists>token. encrypt toy_lib [1, 2, 3] [104, 105] (replicate 16 7) = Inr token \<and>
             decrypt toy_lib [1, 2, 3] token = Inr [104, 105])"
  using encrypt_decrypt_roundtrip [OF toy_lib_ok, of "replicate 16 7" "[104, 105]" "[1, 2, 3]"]
  by (auto simp: toy_lib_ok)

subsection \<open>Failures of decrypt\<close>

lemma decrypt_malformed_iff:
  "decrypt lib key token = Inl MalformedToken \<longleftrightarrow> decode_token lib token = None"
proof -
  have "expand_loop lib material len stream counter \<noteq> Inl MalformedToken" for material len stream counter
    by (induction lib material len stream counter rule: expand_loop.induct)
       (subst expand_loop.simps, simp)
  then have "expand_keystream lib key iv len \<noteq> Inl MalformedToken" for iv len
    by (simp add: expand_keystream_def)
  then show ?thesis
    by (auto simp: decrypt_def Let_def split: option.splits prod.splits sum.splits)
qed

lemma short_token_tag:
  assumes "length data < 48"
  shows "length (snd (snd (split_token data))) < 32"
  using assms by (simp add: split_token_def Let_def)

text \<open>
  \<^bold>\<open>C4 (as the code has it).\<close>  \<open>decrypt\<close> fails with \<open>MalformedToken\<close> exactly when the token is
  not valid transport encoding.  \<open>decrypt\<close> has no length check: a token that decodes to
  fewer than 48 bytes leaves a stored tag shorter than 32 bytes and fails, like every
  token whose recomputed tag over \<open>iv \<parallel> ciphertext\<close> differs from the stored tag, with
  \<open>IntegrityError\<close>.  Decrypted bytes are returned only after the tag check has passed.
\<close>

theorem decrypt_failures:
  assumes "stdlib_ok lib"
  shows "(decrypt lib key token = Inl MalformedToken \<longleftrightarrow> decode_token lib token = None) \<and>
         (\<forall>data iv ct tag. decode_token lib token = Some data \<and> split_token data = (iv, ct, tag) \<and>
             (length data < 48 \<or> hmac_sha256 lib key (iv @ ct) \<noteq> tag)
             \<longrightarrow> decrypt lib key token = Inl IntegrityError) \<and>
         (\<forall>plain. decrypt lib key token = Inr plain \<longrightarrow>
             (\<exists>data iv ct tag. decode_token lib token = Some data \<and> 48 \<le> length data \<and>
                 split_token data = (iv, ct, tag) \<and> hmac_sha256 lib key (iv @ ct) = tag))"
proof (intro conjI allI impI)
  show "decrypt lib key token = Inl MalformedToken \<longleftrightarrow> decode_token lib token = None"
    by (rule decrypt_malformed_iff)
next
  fix data iv ct tag
  assume a: "decode_token lib token = Some data \<and> split_token data = (iv, ct, tag) \<and>
             (length data < 48 \<or> hmac_sha256 lib key (iv @ ct) \<noteq> tag)"
  have "hmac_sha256 lib key (iv @ ct) \<noteq> tag"
  proof (cases "length data < 48")
    case True
    from short_token_tag [OF True] a have "length tag < 32" by simp
    moreover have "length (hmac_sha256 lib key (iv @ ct)) = 32"
      using assms by (simp add: stdlib_ok_def)
    ultimately show ?thesis by auto
  next
    case False
    with a show ?thesis by simp
  qed
  with a show "decrypt lib key token = Inl IntegrityError"
    by (simp add: decrypt_def)
next
  fix plain
  assume d: "decrypt lib key token = Inr plain"
  then obtain data where data: "decode_token lib token = Some data"
    by (auto simp: decrypt_def split: option.splits)
  obtain iv ct tag where sp: "split_token data = (iv, ct, tag)"
    by (cases "split_token data") auto
  from d data sp have eq: "hmac_sha256 lib key (iv @ ct) = tag"
    by (auto simp: decrypt_def Let_def split: if_splits)
  have "48 \<le> length data"
  proof (rule ccontr)
    assume "\<not> 48 \<le> length data"
    then have "length data < 48" by simp
    from short_token_tag [OF this] sp have "length tag < 32" by simp
    moreover have "length (hmac_sha256 lib key (iv @ ct)) = 32"
      using assms by (simp add: stdlib_ok_def)
    ultimately show False using eq by simp
  qed
  with data sp eq
  show "\<exists>data iv ct tag. decode_token lib token = Some data \<and> 48 \<le> length data \<and>
          split_token data = (iv, ct, tag) \<and> hmac_sha256 lib key (iv @ ct) = tag"
    by blast
qed

theorem decrypt_failures_witness:
  "stdlib_ok toy_lib \<and>
   decrypt toy_lib [1, 2, 3] ''a'' = Inl MalformedToken \<and>
   decrypt toy_lib [1, 2, 3] ''aaaa'' = Inl IntegrityError"
proof -
  note inst = decrypt_failures [OF toy_lib_ok]
  have a: "decode_token toy_lib ''a'' = None"
    by (simp add: decode_token_def ascii_encode_def toy_lib_def)
  have b: "decode_token toy_lib ''aaaa'' = Some [0, 0]"
    by (simp add: decode_token_def ascii_encode_def toy_lib_def)
  have c: "split_token [0, 0] = ([0, 0], [], [])"
    by (simp add: split_token_def)
  from inst [of "[1, 2, 3]" "''a''"] a have "decrypt toy_lib [1, 2, 3] ''a'' = Inl MalformedToken"
    by simp
  moreover from inst [of "[1, 2, 3]" "''aaaa''"] b c
  have "decrypt toy_lib [1, 2, 3] ''aaaa'' = Inl IntegrityError"
    by simp
  ultimately show ?thesis using toy_lib_ok by simp
qed

text \<open>The claim as stated asks for \<open>MalformedToken\<close> when the decoded length is below 48.
  The empty token is valid transport encoding of the empty byte string, and \<open>decrypt\<close>
  answers it with \<open>IntegrityError\<close>.\<close>

theorem short_token_counterexample:
  "decode_token toy_lib [] = Some [] \<and> length ([] :: bytes) < 48 \<and>
   decrypt toy_lib [1, 2, 3] [] = Inl IntegrityError"
  by (simp add: decode_token_def ascii_encode_def decrypt_def split_token_def toy_lib_def toy_digest_def)

subsection \<open>Key derivation\<close>

lemma derive_key_again:
  assumes "derive_key lib kms identity context = (key, kms')"
  shows "derive_key lib kms' identity context = (key, kms')"
  using assms by (auto simp: derive_key_def Let_def split: option.splits)

lemma derive_key_cached:
  assumes "derive_key lib kms identity context = (key, kms')"
  shows "cache kms' (identity @ '':'' @ context) = Some key"
  using assms by (auto simp: derive_key_def Let_def split: option.splits)

lemma derive_key_hit:
  assumes "cache kms (identity @ '':'' @ context) = Some key"
  shows "derive_key lib kms identity context = (key, kms)"
  using assms by (simp add: derive_key_def)

lemma derive_key_fresh:
  assumes "cache kms (identity @ '':'' @ context) = None"
  shows "fst (derive_key lib kms identity context) =
    hmac_sha256 lib (master_secret kms)
      (pbkdf2_hmac_sha256 lib (utf8 identity) (sha256 lib (utf8 context)) 200000 32)"
  using assms by (simp add: derive_key_def Let_def)

text \<open>
  \<^bold>\<open>C2 (where the code departs from it).\<close>  Repeated calls with the same pair return the same
  key (\<open>derive_key_again\<close>).  But the cache is keyed by \<open>identity:context\<close>, and the two
  distinct pairs \<open>("a:b", "c")\<close> and \<open>("a", "b:c")\<close> share the cache key \<open>a:b:c\<close>: after the
  first pair has been derived, the second is answered from the cache with the first
  pair's key, whatever the hash functions are.
\<close>

theorem derive_key_cache_collision:
  "(''a:b'', ''c'') \<noteq> (''a'', ''b:c'') \<and>
   fst (derive_key lib (snd (derive_key lib kms ''a:b'' ''c'')) ''a'' ''b:c'')
     = fst (derive_key lib kms ''a:b'' ''c'')"
proof -
  obtain key kms' where d: "derive_key lib kms ''a:b'' ''c'' = (key, kms')"
    by (cases "derive_key lib kms ''a:b'' ''c''") auto
  from derive_key_cached [OF d] have "cache kms' (''a'' @ '':'' @ ''b:c'') = Some key"
    by simp
  from derive_key_hit [OF this, where lib = lib] d show ?thesis by simp
qed

section \<open>Properties of the enclave\<close>

subsection \<open>Loading\<close>

lemma load_result:
  "load lib e segments =
     (if segments = [] then Inl NoSegments
      else if [] \<in> set segments then Inl EmptySegment
      else Inr (e\<lparr>pages := map (\<lambda>(i, seg). \<lparr> page_address = i * 4096, page_size = length seg, page_data = seg \<rparr>) (enumerate 0 segments),
                 mrenclave := hexdigest lib (concat segments @ utf8 (name e) @ utf8 (signer e)),
                 loaded := True\<rparr>,
               hexdigest lib (concat segments @ utf8 (name e) @ utf8 (signer e))))"
proof -
  have "map page_data (map (\<lambda>(i, seg). \<lparr> page_address = i * 4096, page_size = length seg, page_data = seg \<rparr>) (enumerate n segments)) = segments" for n
    by (induction segments arbitrary: n) auto
  then show ?thesis
    by (auto simp: load_def Let_def enclave_measure_def list_ex_iff)
qed

lemma layout_nth:
  assumes "i < length segments"
  shows "map (\<lambda>(i, seg). \<lparr> page_address = i * 4096, page_size = length seg, page_data = seg \<rparr>) (enumerate 0 segments) ! i
    = \<lparr> page_address = i * 4096, page_size = length (segments ! i), page_data = segments ! i \<rparr>"
  using assms by (simp add: nth_enumerate_eq)

lemma layout_data:
  "map page_data (map (\<lambda>(i, seg). \<lparr> page_address = i * 4096, page_size = length seg, page_data = seg \<rparr>) (enumerate n segments)) = segments"
  by (induction segments arbitrary: n) auto

text \<open>
  \<^bold>\<open>C6.\<close>  \<open>load\<close> fails exactly when the list of segments is empty or contains an empty
  segment, and then with one of the two \<open>InvalidSegments\<close> errors.  On success page \<open>i\<close>
  holds segment \<open>i\<close> at address \<open>i * 0x1000\<close>, the enclave is loaded, and the measurement
  is the digest of the page data in load order followed by name and signer.
\<close>

theorem load_contract:
  "((\<exists>err. load lib e segments = Inl err) \<longleftrightarrow> segments = [] \<or> [] \<in> set segments) \<and>
   (\<forall>err. load lib e segments = Inl err \<longrightarrow> err = NoSegments \<or> err = EmptySegment) \<and>
   (\<forall>e' m. load lib e segments = Inr (e', m) \<longrightarrow>
      loaded e' \<and> mrenclave e' = m \<and>
      m = hexdigest lib (concat (map page_data (pages e')) @ utf8 (name e') @ utf8 (signer e')) \<and>
      length (pages e') = length segments \<and>
      (\<forall>i < length segments. pages e' ! i =
          \<lparr> page_address = i * 4096, page_size = length (segments ! i), page_data = segments ! i \<rparr>) \<and>
      name e' = name e \<and> signer e' = signer e \<and> sealed_store e' = sealed_store e)"
proof (intro conjI allI impI)
  show "(\<exists>err. load lib e segments = Inl err) \<longleftrightarrow> segments = [] \<or> [] \<in> set segments"
    by (simp add: load_result)
next
  fix err
  assume "load lib e segments = Inl err"
  then show "err = NoSegments \<or> err = EmptySegment"
    by (auto simp: load_result split: if_splits)
next
  fix e' m
  assume "load lib e segments = Inr (e', m)"
  then have e': "e' = e\<lparr>pages := map (\<lambda>(i, seg). \<lparr> page_address = i * 4096, page_size = length seg, page_data = seg \<rparr>) (enumerate 0 segments),
                 mrenclave := hexdigest lib (concat segments @ utf8 (name e) @ utf8 (signer e)),
                 loaded := True\<rparr>"
    and m: "m = hexdigest lib (concat segments @ utf8 (name e) @ utf8 (signer e))"
    by (auto simp: load_result split: if_splits)
  have ps: "pages e' = map (\<lambda>(i, seg). \<lparr> page_address = i * 4096, page_size = length seg, page_data = seg \<rparr>) (enumerate 0 segments)"
    by (simp add: e')
  show "loaded e'" by (simp add: e')
  show "mrenclave e' = m" by (simp add: e' m)
  show n: "name e' = name e" by (simp add: e')
  show s: "signer e' = signer e" by (simp add: e')
  show "m = hexdigest lib (concat (map page_data (pages e')) @ utf8 (name e') @ utf8 (signer e'))"
    by (simp only: ps n s m layout_data)
  show "length (pages e') = length segments" by (simp add: e')
  show "sealed_store e' = sealed_store e" by (simp add: e')
  fix i
  assume "i < length segments"
  then show "pages e' ! i = \<lparr> page_address = i * 4096, page_size = length (segments ! i), page_data = segments ! i \<rparr>"
    by (simp only: ps layout_nth)
qed

theorem load_contract_witness:
  "\<exists>e' m. load toy_lib (new_enclave ''demo'' ''lab'') [[1, 2], [3]] = Inr (e', m) \<and>
      loaded e' \<and> mrenclave e' = m \<and>
      pages e' ! 1 = \<lparr> page_address = 4096, page_size = 1, page_data = [3] \<rparr>"
proof -
  obtain e' m where r: "load toy_lib (new_enclave ''demo'' ''lab'') [[1, 2], [3]] = Inr (e', m)"
    by (simp add: load_result)
  from load_contract [of toy_lib "new_enclave ''demo'' ''lab''" "[[1, 2], [3]]"] r
  have "loaded e' \<and> mrenclave e' = m \<and>
      pages e' ! 1 = \<lparr> page_address = 1 * 4096, page_size = length ([[1, 2], [3 :: byte]] ! 1),
                      page_data = [[1, 2], [3]] ! 1 \<rparr>"
    by simp
  with r show ?thesis by simp
qed

subsection \<open>Sealing\<close>

lemma seal_Inr:
  assumes "seal lib kms e identity d iv = (Inr (e', token), kms')"
  shows "identity \<noteq> [] \<and>
    (\<exists>key. derive_key lib kms identity (mrenclave e) = (key, kms') \<and>
       encrypt lib key (json_dumps lib d) iv = Inr token) \<and>
    e' = e\<lparr>sealed_store := (sealed_store e)(identity \<mapsto> token)\<rparr>"
  using assms
  by (auto simp: seal_def Let_def split: if_splits prod.splits sum.splits)

lemma seal_returns:
  assumes "stdlib_ok lib" and "identity \<noteq> []" and "length (json_dumps lib d) \<le> 32 * 2 ^ 32"
  shows "\<exists>e' token kms'. seal lib kms e identity d iv = (Inr (e', token), kms')"
proof -
  obtain key kms' where dk: "derive_key lib kms identity (mrenclave e) = (key, kms')"
    by (cases "derive_key lib kms identity (mrenclave e)") auto
  from encrypt_returns [OF assms(1) assms(3), of key iv]
  obtain token where "encrypt lib key (json_dumps lib d) iv = Inr token" by blast
  with dk assms(2) show ?thesis by (simp add: seal_def)
qed

lemma unseal_stored:
  assumes "stdlib_ok lib" and "length iv = 16"
    and "sealed_store e identity = Some token"
    and "derive_key lib kms identity (mrenclave e) = (key, kms')"
    and "encrypt lib key (json_dumps lib d) iv = Inr token"
  shows "unseal lib kms e identity = (json_roundtrip lib d, kms')"
proof -
  have "decrypt lib key token = Inr (json_dumps lib d)"
    using assms(1,2,5) by (rule encrypt_then_decrypt)
  then show ?thesis using assms(3,4)
    by (simp add: unseal_def json_roundtrip_def split: option.splits)
qed

lemma json_roundtrip_exact:
  assumes "json_loads lib (json_dumps lib d) = Some d"
  shows "json_roundtrip lib d = Inr d"
  using assms by (simp add: json_roundtrip_def)

lemma seal_then_unseal:
  assumes "stdlib_ok lib" and "length iv = 16"
    and "seal lib kms e identity d iv = (Inr (e', token), kms')"
  shows "unseal lib kms' e' identity = (json_roundtrip lib d, kms')"
proof -
  from seal_Inr [OF assms(3)] obtain key where
    dk: "derive_key lib kms identity (mrenclave e) = (key, kms')" and
    enc: "encrypt lib key (json_dumps lib d) iv = Inr token" and
    e': "e' = e\<lparr>sealed_store := (sealed_store e)(identity \<mapsto> token)\<rparr>"
    by blast
  have st: "sealed_store e' identity = Some token" by (simp add: e')
  have "derive_key lib kms' identity (mrenclave e') = (key, kms')"
    using derive_key_again [OF dk] by (simp add: e')
  from unseal_stored [OF assms(1,2) st this enc] show ?thesis .
qed

lemma unseal_absent:
  assumes "sealed_store e identity = None"
  shows "unseal lib kms e identity = (Inl NoSealedData, kms)"
  using assms by (simp add: unseal_def)

lemma unseal_present_not_absent:
  assumes "sealed_store e identity = Some token"
  shows "fst (unseal lib kms e identity) \<noteq> Inl NoSealedData"
proof -
  have "expand_loop lib material len stream counter \<noteq> Inl NoSealedData" for material len stream counter
    by (induction lib material len stream counter rule: expand_loop.induct)
       (subst expand_loop.simps, simp)
  then have "expand_keystream lib key iv len \<noteq> Inl NoSealedData" for key iv len
    by (simp add: expand_keystream_def)
  then have "decrypt lib key token \<noteq> Inl NoSealedData" for key
    by (auto simp: decrypt_def Let_def split: option.splits prod.splits sum.splits)
  then show ?thesis using assms
    by (auto simp: unseal_def split: prod.splits sum.splits option.splits)
qed

lemma py_lib_ok: "stdlib_ok py_lib"
  by (simp add: stdlib_ok_def py_lib_def length_toy_digest toy_b64_roundtrip toy_b64_ascii)

lemma demo_first_is_loaded: "loaded demo_first"
  by (simp add: demo_first_def load_result)

lemma str_nat_digit: "n < 10 \<Longrightarrow> str_nat n = [''0123456789'' ! n]"
  by (subst str_nat.simps) simp

lemma unat_of_char: "unat (of_char c :: byte) = of_char c"
proof -
  have "unat (of_char c :: byte) = unat (of_nat (of_char c) :: byte)"
    by (simp only: of_nat_of_char)
  also have "\<dots> = of_char c mod 256" by (simp add: unat_of_nat)
  also have "\<dots> = of_char c" by simp
  finally show ?thesis .
qed

lemma ascii_decode_utf8:
  assumes "list_all (\<lambda>c. (of_char c :: nat) < 128) s"
  shows "ascii_decode (utf8 s) = Some s"
  using assms
  by (auto simp: ascii_decode_def utf8_def list_all_iff unat_of_char comp_def intro!: map_idI)

lemma tuple_dumps: "py_json_dumps (PyTuple [1, 2]) = utf8 ''[1,2]''"
  by (simp add: py_json_dumps_def str_int_def str_nat_digit)

lemma array_loads: "py_json_loads (utf8 ''[1,2]'') = Some (PyList [1, 2])"
proof -
  have "ascii_decode (utf8 ''[1,2]'') = Some ''[1,2]''"
    by (rule ascii_decode_utf8) simp
  then show ?thesis
    by (simp add: py_json_loads_def parse_int_def parse_nat_def)
qed

lemma tuple_roundtrip: "json_roundtrip py_lib (PyTuple [1, 2]) = Inr (PyList [1, 2])"
  by (simp add: json_roundtrip_def py_lib_def tuple_dumps array_loads)

lemma tuple_seal:
  "seal py_lib demo_kms demo_first ''alice'' (PyTuple [1, 2]) (replicate 16 7)
     = (Inr (tuple_sealed, tuple_token), tuple_kms_after)"
proof -
  have "length (json_dumps py_lib (PyTuple [1, 2])) \<le> 32 * 2 ^ 32"
    by (simp add: py_lib_def tuple_dumps utf8_def)
  from seal_returns [OF py_lib_ok _ this, of "''alice''" demo_kms demo_first "replicate 16 7"]
  obtain e' token kms' where
    "seal py_lib demo_kms demo_first ''alice'' (PyTuple [1, 2]) (replicate 16 7) = (Inr (e', token), kms')"
    by auto
  then show ?thesis
    by (simp add: tuple_sealed_def tuple_token_def tuple_kms_after_def tuple_sealing_def)
qed

text \<open>
  \<^bold>\<open>C5 (as the code has it).\<close>  On an enclave that is not touched in between, a \<open>seal\<close> that
  returns a token followed by \<open>unseal\<close> of the same identity returns
  \<open>json.loads(json.dumps(data))\<close>: the sealed data exactly whenever the data survive the
  JSON round trip.  \<open>seal\<close> does return a token whenever the identity is non-empty and the
  serialised data have at most \<open>32 * 2 ^ 32\<close> bytes.  After two seals under one identity
  the store holds the second token and \<open>unseal\<close> returns the round trip of the second
  data.  \<open>unseal\<close> of an identity with no entry fails with \<open>NoSealedData\<close>.
\<close>

theorem seal_unseal_roundtrip:
  assumes "stdlib_ok lib" and "length iv = 16" and "length iv2 = 16"
  shows "(identity \<noteq> [] \<and> length (json_dumps lib d) \<le> 32 * 2 ^ 32 \<longrightarrow>
            (\<exists>e' token kms'. seal lib kms e identity d iv = (Inr (e', token), kms'))) \<and>
         (\<forall>e' token kms'. seal lib kms e identity d iv = (Inr (e', token), kms') \<longrightarrow>
            unseal lib kms' e' identity = (json_roundtrip lib d, kms') \<and>
            (json_loads lib (json_dumps lib d) = Some d \<longrightarrow>
               unseal lib kms' e' identity = (Inr d, kms'))) \<and>
         (\<forall>e1 t1 k1 e2 t2 k2.
            seal lib kms e identity d iv = (Inr (e1, t1), k1) \<and>
            seal lib k1 e1 identity d2 iv2 = (Inr (e2, t2), k2) \<longrightarrow>
            sealed_store e2 identity = Some t2 \<and>
            unseal lib k2 e2 identity = (json_roundtrip lib d2, k2)) \<and>
         (sealed_store e identity = None \<longrightarrow> unseal lib kms e identity = (Inl NoSealedData, kms))"
proof (intro conjI allI impI)
  assume "identity \<noteq> [] \<and> length (json_dumps lib d) \<le> 32 * 2 ^ 32"
  then show "\<exists>e' token kms'. seal lib kms e identity d iv = (Inr (e', token), kms')"
    using seal_returns [OF assms(1)] by blast
next
  fix e' token kms'
  assume s: "seal lib kms e identity d iv = (Inr (e', token), kms')"
  with assms(1,2) show u: "unseal lib kms' e' identity = (json_roundtrip lib d, kms')"
    by (rule seal_then_unseal)
  assume "json_loads lib (json_dumps lib d) = Some d"
  then have "json_roundtrip lib d = Inr d" by (rule json_roundtrip_exact)
  with u show "unseal lib kms' e' identity = (Inr d, kms')" by simp
next
  fix e1 t1 k1 e2 t2 k2
  assume a: "seal lib kms e identity d iv = (Inr (e1, t1), k1) \<and>
             seal lib k1 e1 identity d2 iv2 = (Inr (e2, t2), k2)"
  then have second: "seal lib k1 e1 identity d2 iv2 = (Inr (e2, t2), k2)" by simp
  from seal_Inr [OF second] show "sealed_store e2 identity = Some t2" by auto
  from assms(1,3) second show "unseal lib k2 e2 identity = (json_roundtrip lib d2, k2)"
    by (rule seal_then_unseal)
next
  assume "sealed_store e identity = None"
  then show "unseal lib kms e identity = (Inl NoSealedData, kms)"
    by (rule unseal_absent)
qed

theorem seal_unseal_roundtrip_witness:
  "loaded demo_first \<and>
   (\<exists>e' token kms'.
      seal toy_lib demo_kms demo_first ''alice'' [123, 125] (replicate 16 7) = (Inr (e', token), kms') \<and>
      unseal toy_lib kms' e' ''alice'' = (Inr [123, 125], kms'))"
proof -
  have iv: "length (replicate 16 (7 :: byte)) = 16" by simp
  note inst = seal_unseal_roundtrip [OF toy_lib_ok iv iv,
      of "''alice''" "[123, 125]" demo_kms demo_first]
  have "''alice'' \<noteq> [] \<and> length (json_dumps toy_lib [123, 125 :: byte]) \<le> 32 * 2 ^ 32"
    by (simp add: toy_lib_def)
  with inst obtain e' token kms' where
    s: "seal toy_lib demo_kms demo_first ''alice'' [123, 125] (replicate 16 7) = (Inr (e', token), kms')"
    by blast
  have "json_loads toy_lib (json_dumps toy_lib [123, 125 :: byte]) = Some [123, 125]"
    by (simp add: toy_lib_def)
  with inst s have "unseal toy_lib kms' e' ''alice'' = (Inr [123, 125], kms')"
    by blast
  with s demo_first_is_loaded show ?thesis by blast
qed

text \<open>The claim as stated has \<open>unseal\<close> return the sealed data exactly.  The loaded enclave
  \<open>demo_first\<close> seals the tuple \<open>(1, 2)\<close>, which \<open>json.dumps\<close> writes as \<open>[1,2]\<close>; \<open>unseal\<close>
  returns the list \<open>[1, 2]\<close>, which is not the tuple.\<close>

theorem tuple_seal_counterexample:
  "loaded demo_first \<and>
   seal py_lib demo_kms demo_first ''alice'' (PyTuple [1, 2]) (replicate 16 7)
     = (Inr (tuple_sealed, tuple_token), tuple_kms_after) \<and>
   unseal py_lib tuple_kms_after tuple_sealed ''alice'' = (Inr (PyList [1, 2]), tuple_kms_after) \<and>
   PyList [1, 2] \<noteq> PyTuple [1, 2]"
proof -
  have iv: "length (replicate 16 (7 :: byte)) = 16" by simp
  from seal_then_unseal [OF py_lib_ok iv tuple_seal]
  have "unseal py_lib tuple_kms_after tuple_sealed ''alice'' = (Inr (PyList [1, 2]), tuple_kms_after)"
    by (simp only: tuple_roundtrip)
  with demo_first_is_loaded tuple_seal show ?thesis by simp
qed

lemma unseal_after_seal:
  assumes "stdlib_ok lib" and "length iv = 16"
    and "seal lib kms e identity d iv = (Inr (e1, token), kms1)"
    and "sealed_store e2 identity = Some token" and "mrenclave e2 = mrenclave e"
  shows "unseal lib kms1 e2 identity = (json_roundtrip lib d, kms1)"
proof -
  from seal_Inr [OF assms(3)] obtain key where
    dk: "derive_key lib kms identity (mrenclave e) = (key, kms1)" and
    enc: "encrypt lib key (json_dumps lib d) iv = Inr token"
    by blast
  have "derive_key lib kms1 identity (mrenclave e2) = (key, kms1)"
    using derive_key_again [OF dk] by (simp add: assms(5))
  from unseal_stored [OF assms(1,2,4) this enc] show ?thesis .
qed

lemma unseal_tag_mismatch:
  assumes "sealed_store e identity = Some token"
    and "decode_token lib token = Some data" and "split_token data = (iv, ct, tag)"
    and "hmac_sha256 lib (fst (derive_key lib kms identity (mrenclave e))) (iv @ ct) \<noteq> tag"
  shows "fst (unseal lib kms e identity) = Inl IntegrityError"
proof -
  obtain key kms' where dk: "derive_key lib kms identity (mrenclave e) = (key, kms')"
    by (cases "derive_key lib kms identity (mrenclave e)") auto
  with assms(4) have "hmac_sha256 lib key (iv @ ct) \<noteq> tag" by simp
  then have "decrypt lib key token = Inl IntegrityError"
    using assms(2,3) by (simp add: decrypt_def)
  with assms(1) dk show ?thesis by (simp add: unseal_def)
qed

lemma demo_first_loaded:
  "load toy_lib (new_enclave ''demo'' ''lab'') [[1, 2]] = Inr (demo_first, mrenclave demo_first)"
  by (simp add: demo_first_def load_result)

lemma demo_seal:
  "seal toy_lib demo_kms demo_first ''alice'' [123, 125] (replicate 16 7)
     = (Inr (demo_sealed, demo_token), demo_kms_after)"
proof -
  have "length (json_dumps toy_lib [123, 125 :: byte]) \<le> 32 * 2 ^ 32"
    by (simp add: toy_lib_def)
  from seal_returns [OF toy_lib_ok _ this, of "''alice''" demo_kms demo_first "replicate 16 7"]
  obtain e' token kms' where
    "seal toy_lib demo_kms demo_first ''alice'' [123, 125] (replicate 16 7) = (Inr (e', token), kms')"
    by auto
  then show ?thesis
    by (simp add: demo_sealed_def demo_token_def demo_kms_after_def demo_sealing_def)
qed

lemma demo_reload:
  "load toy_lib demo_sealed [[1], [2]] = Inr (demo_reloaded, mrenclave demo_reloaded)"
  by (simp add: demo_reloaded_def load_result)

lemma demo_same_measurement: "mrenclave demo_reloaded = mrenclave demo_first"
proof -
  from seal_Inr [OF demo_seal]
  have s: "demo_sealed = demo_first\<lparr>sealed_store := (sealed_store demo_first)(''alice'' \<mapsto> demo_token)\<rparr>"
    by blast
  have n: "name demo_sealed = ''demo''" and g: "signer demo_sealed = ''lab''"
    by (subst s, simp add: demo_first_def load_result new_enclave_def)+
  have "mrenclave demo_reloaded = hexdigest toy_lib ([1, 2] @ utf8 ''demo'' @ utf8 ''lab'')"
    by (simp add: demo_reloaded_def load_result n g)
  moreover have "mrenclave demo_first = hexdigest toy_lib ([1, 2] @ utf8 ''demo'' @ utf8 ''lab'')"
    by (simp add: demo_first_def load_result new_enclave_def)
  ultimately show ?thesis by simp
qed

text \<open>
  \<^bold>\<open>C10 (as the code has it).\<close>  After a successful \<open>seal\<close>, \<open>load\<close> on the (already loaded)
  enclave succeeds for every non-empty list of non-empty segments.  It replaces pages and
  measurement, keeps \<open>loaded\<close> true and leaves the sealed store as it was, so \<open>unseal\<close> of
  the sealed identity never fails with \<open>NoSealedData\<close>.  If the new measurement equals
  the old one, \<open>unseal\<close> returns the sealed data as \<open>json.loads(json.dumps(data))\<close> gives
  them back; if the tag recomputed under the key that
  \<open>derive_key\<close> returns for the new measurement differs from the stored tag, \<open>unseal\<close> fails
  with \<open>IntegrityError\<close>.
\<close>

theorem reload_keeps_sealed_store:
  assumes "stdlib_ok lib" and "length iv = 16"
    and "seal lib kms e identity d iv = (Inr (e1, token), kms1)"
  shows "(segments \<noteq> [] \<and> [] \<notin> set segments \<longrightarrow> (\<exists>e2 m2. load lib e1 segments = Inr (e2, m2))) \<and>
         (\<forall>e2 m2. load lib e1 segments = Inr (e2, m2) \<longrightarrow>
            loaded e2 \<and> mrenclave e2 = m2 \<and> map page_data (pages e2) = segments \<and>
            sealed_store e2 = sealed_store e1 \<and>
            fst (unseal lib kms1 e2 identity) \<noteq> Inl NoSealedData \<and>
            (m2 = mrenclave e1 \<longrightarrow> unseal lib kms1 e2 identity = (json_roundtrip lib d, kms1)) \<and>
            (\<forall>data iv' ct tag.
               decode_token lib token = Some data \<and> split_token data = (iv', ct, tag) \<and>
               hmac_sha256 lib (fst (derive_key lib kms1 identity m2)) (iv' @ ct) \<noteq> tag
               \<longrightarrow> fst (unseal lib kms1 e2 identity) = Inl IntegrityError))"
proof (intro conjI allI impI)
  assume "segments \<noteq> [] \<and> [] \<notin> set segments"
  then show "\<exists>e2 m2. load lib e1 segments = Inr (e2, m2)"
    by (simp add: load_result)
next
  fix e2 m2
  assume ld: "load lib e1 segments = Inr (e2, m2)"
  then have e2: "e2 = e1\<lparr>pages := map (\<lambda>(i, seg). \<lparr> page_address = i * 4096, page_size = length seg, page_data = seg \<rparr>) (enumerate 0 segments),
                 mrenclave := m2, loaded := True\<rparr>"
    by (auto simp: load_result split: if_splits)
  from seal_Inr [OF assms(3)] have e1: "e1 = e\<lparr>sealed_store := (sealed_store e)(identity \<mapsto> token)\<rparr>"
    by blast
  show "loaded e2" by (subst e2) simp
  show mr: "mrenclave e2 = m2" by (subst e2) simp
  have ps: "pages e2 = map (\<lambda>(i, seg). \<lparr> page_address = i * 4096, page_size = length seg, page_data = seg \<rparr>) (enumerate 0 segments)"
    by (subst e2) simp
  show "map page_data (pages e2) = segments" by (simp only: ps layout_data)
  show st: "sealed_store e2 = sealed_store e1" by (subst e2) simp
  have present: "sealed_store e2 identity = Some token" by (simp add: st e1)
  then show "fst (unseal lib kms1 e2 identity) \<noteq> Inl NoSealedData"
    by (rule unseal_present_not_absent)
  {
    assume "m2 = mrenclave e1"
    then have "mrenclave e2 = mrenclave e" by (simp add: mr e1)
    with assms present show "unseal lib kms1 e2 identity = (json_roundtrip lib d, kms1)"
      by (rule unseal_after_seal)
  }
  {
    fix data iv' ct tag
    assume "decode_token lib token = Some data \<and> split_token data = (iv', ct, tag) \<and>
            hmac_sha256 lib (fst (derive_key lib kms1 identity m2)) (iv' @ ct) \<noteq> tag"
    then show "fst (unseal lib kms1 e2 identity) = Inl IntegrityError"
      using unseal_tag_mismatch [OF present, of lib data iv' ct tag kms1] by (simp add: mr)
  }
qed

theorem reload_keeps_sealed_store_witness:
  "\<exists>e2 m2. load toy_lib demo_sealed [[1], [2]] = Inr (e2, m2) \<and> loaded e2 \<and>
      sealed_store e2 = sealed_store demo_sealed \<and>
      fst (unseal toy_lib demo_kms_after e2 ''alice'') \<noteq> Inl NoSealedData"
proof -
  have iv: "length (replicate 16 (7 :: byte)) = 16" by simp
  from reload_keeps_sealed_store [OF toy_lib_ok iv demo_seal, of "[[1], [2]]"] demo_reload
  show ?thesis by simp
qed

text \<open>The claim as stated promises an integrity error after a reload with different
  segments.  The measurement hashes the concatenation of the segments, so the segment
  lists \<open>[01 02]\<close> and \<open>[01], [02]\<close> give the same measurement and the same key: \<open>unseal\<close>
  after the reload returns the data.\<close>

theorem reload_counterexample:
  "[[1, 2]] \<noteq> [[1], [2 :: byte]] \<and>
   load toy_lib (new_enclave ''demo'' ''lab'') [[1, 2]] = Inr (demo_first, mrenclave demo_first) \<and>
   seal toy_lib demo_kms demo_first ''alice'' [123, 125] (replicate 16 7)
     = (Inr (demo_sealed, demo_token), demo_kms_after) \<and>
   load toy_lib demo_sealed [[1], [2]] = Inr (demo_reloaded, mrenclave demo_reloaded) \<and>
   unseal toy_lib demo_kms_after demo_reloaded ''alice'' = (Inr [123, 125], demo_kms_after)"
proof -
  from seal_Inr [OF demo_seal]
  have s: "demo_sealed = demo_first\<lparr>sealed_store := (sealed_store demo_first)(''alice'' \<mapsto> demo_token)\<rparr>"
    by blast
  have "sealed_store demo_reloaded = sealed_store demo_sealed"
    by (simp add: demo_reloaded_def load_result)
  then have present: "sealed_store demo_reloaded ''alice'' = Some demo_token"
    by (simp add: s)
  have iv: "length (replicate 16 (7 :: byte)) = 16" by simp
  have "json_roundtrip toy_lib [123, 125] = Inr [123, 125]"
    by (simp add: json_roundtrip_def toy_lib_def)
  with unseal_after_seal [OF toy_lib_ok iv demo_seal present demo_same_measurement]
  show ?thesis
    using demo_first_loaded demo_seal demo_reload by simp
qed

section \<open>Properties of the encrypted VM\<close>

subsection \<open>Reading a page\<close>

lemma mem_read_absent:
  assumes "map_of (mem_pages mem) pid = None"
  shows "mem_read lib kms mem pid = (Inl PageNotFound, kms)"
  using assms by (simp add: mem_read_def)

lemma mem_read_present:
  assumes "map_of (mem_pages mem) pid = Some page"
  shows "fst (mem_read lib kms mem pid) =
    (case decrypt lib (fst (derive_page_key lib kms (mem_vm_id mem) pid)) (ciphertext page) of
       Inl err \<Rightarrow> Inl err
     | Inr d \<Rightarrow> if page_mac lib (ciphertext page) \<noteq> mac page then Inl PageIntegrityError else Inr d)"
  using assms
  by (simp add: mem_read_def verify_def split: prod.splits sum.splits)

lemma tampered_token_malformed:
  "decrypt lib key [char_of (195 :: nat), char_of (169 :: nat)] = Inl MalformedToken"
  by (simp add: decrypt_def decode_token_def ascii_encode_def)

text \<open>
  \<^bold>\<open>C7 (as the code has it).\<close>  \<open>read\<close> fails with \<open>PageNotFound\<close> if the page is absent.
  Otherwise it first decrypts through the key service and fails with that call's error
  (\<open>MalformedToken\<close> or \<open>IntegrityError\<close>) if there is one; only then does it recompute
  the digest of the token and fail with the page integrity error if it disagrees with the
  stored digest.  Plaintext is returned only when both checks have passed: the digest
  comparison comes after the decryption and before any plaintext is returned.
\<close>

theorem read_checks_in_order:
  "(map_of (mem_pages mem) pid = None \<longrightarrow> mem_read lib kms mem pid = (Inl PageNotFound, kms)) \<and>
   (\<forall>page. map_of (mem_pages mem) pid = Some page \<longrightarrow>
      fst (mem_read lib kms mem pid) =
        (case decrypt lib (fst (derive_page_key lib kms (mem_vm_id mem) pid)) (ciphertext page) of
           Inl err \<Rightarrow> Inl err
         | Inr d \<Rightarrow> if page_mac lib (ciphertext page) \<noteq> mac page then Inl PageIntegrityError else Inr d)) \<and>
   (\<forall>d. fst (mem_read lib kms mem pid) = Inr d \<longrightarrow>
      (\<exists>page. map_of (mem_pages mem) pid = Some page \<and>
         page_mac lib (ciphertext page) = mac page \<and>
         decrypt lib (fst (derive_page_key lib kms (mem_vm_id mem) pid)) (ciphertext page) = Inr d))"
proof (intro conjI allI impI)
  assume "map_of (mem_pages mem) pid = None"
  then show "mem_read lib kms mem pid = (Inl PageNotFound, kms)" by (rule mem_read_absent)
next
  fix page
  assume "map_of (mem_pages mem) pid = Some page"
  then show "fst (mem_read lib kms mem pid) =
        (case decrypt lib (fst (derive_page_key lib kms (mem_vm_id mem) pid)) (ciphertext page) of
           Inl err \<Rightarrow> Inl err
         | Inr d \<Rightarrow> if page_mac lib (ciphertext page) \<noteq> mac page then Inl PageIntegrityError else Inr d)"
    by (rule mem_read_present)
next
  fix d
  assume r: "fst (mem_read lib kms mem pid) = Inr d"
  show "\<exists>page. map_of (mem_pages mem) pid = Some page \<and>
         page_mac lib (ciphertext page) = mac page \<and>
         decrypt lib (fst (derive_page_key lib kms (mem_vm_id mem) pid)) (ciphertext page) = Inr d"
  proof (cases "map_of (mem_pages mem) pid")
    case None
    with r show ?thesis by (simp add: mem_read_absent)
  next
    case (Some page)
    from r mem_read_present [OF Some, of lib kms]
    have "page_mac lib (ciphertext page) = mac page \<and>
         decrypt lib (fst (derive_page_key lib kms (mem_vm_id mem) pid)) (ciphertext page) = Inr d"
      by (auto split: sum.splits if_splits)
    with Some show ?thesis by simp
  qed
qed

theorem read_checks_in_order_witness:
  "mem_read toy_lib \<lparr> master_secret = [9], cache = Map.empty \<rparr> tampered_memory 1
     = (Inl PageNotFound, \<lparr> master_secret = [9], cache = Map.empty \<rparr>) \<and>
   fst (mem_read toy_lib \<lparr> master_secret = [9], cache = Map.empty \<rparr> tampered_memory 0)
     = Inl MalformedToken"
proof -
  note inst = read_checks_in_order [of tampered_memory _ toy_lib "\<lparr> master_secret = [9], cache = Map.empty \<rparr>"]
  have a: "map_of (mem_pages tampered_memory) 1 = None"
    by (simp add: tampered_memory_def)
  have b: "map_of (mem_pages tampered_memory) 0
      = Some \<lparr> page_id = 0, ciphertext = [char_of (195 :: nat), char_of (169 :: nat)], mac = [] \<rparr>"
    by (simp add: tampered_memory_def)
  from inst [of 1] a have "mem_read toy_lib \<lparr> master_secret = [9], cache = Map.empty \<rparr> tampered_memory 1
     = (Inl PageNotFound, \<lparr> master_secret = [9], cache = Map.empty \<rparr>)"
    by blast
  moreover from inst [of 0] b
  have "fst (mem_read toy_lib \<lparr> master_secret = [9], cache = Map.empty \<rparr> tampered_memory 0) = Inl MalformedToken"
    by (simp add: tampered_token_malformed)
  ultimately show ?thesis by simp
qed

text \<open>The claim as stated puts the digest comparison before any decryption.  On the
  tampered store the stored digest disagrees with the digest of the token, and \<open>read\<close>
  reports the key service's \<open>MalformedToken\<close>, not an integrity error.\<close>

theorem read_decrypts_first_counterexample:
  "map_of (mem_pages tampered_memory) 0
      = Some \<lparr> page_id = 0, ciphertext = [char_of (195 :: nat), char_of (169 :: nat)], mac = [] \<rparr> \<and>
   page_mac toy_lib [char_of (195 :: nat), char_of (169 :: nat)] \<noteq> [] \<and>
   fst (mem_read toy_lib \<lparr> master_secret = [9], cache = Map.empty \<rparr> tampered_memory 0)
     = Inl MalformedToken"
proof -
  have b: "map_of (mem_pages tampered_memory) 0
      = Some \<lparr> page_id = 0, ciphertext = [char_of (195 :: nat), char_of (169 :: nat)], mac = [] \<rparr>"
    by (simp add: tampered_memory_def)
  have "length (page_mac toy_lib [char_of (195 :: nat), char_of (169 :: nat)]) = 64"
    by (simp add: page_mac_def hexdigest_def hex_def toy_lib_def length_toy_digest length_concat comp_def sum_list_triv)
  then have c: "page_mac toy_lib [char_of (195 :: nat), char_of (169 :: nat)] \<noteq> []" by auto
  from mem_read_present [OF b, of toy_lib "\<lparr> master_secret = [9], cache = Map.empty \<rparr>"]
  have "fst (mem_read toy_lib \<lparr> master_secret = [9], cache = Map.empty \<rparr> tampered_memory 0) = Inl MalformedToken"
    by (simp add: tampered_token_malformed)
  with b c show ?thesis by simp
qed

subsection \<open>Measuring a VM\<close>

lemma vm_measure_result:
  "vm_measure lib vm =
     (vm\<lparr>measurement := Some (hexdigest lib (measured_bytes vm))\<rparr>, hexdigest lib (measured_bytes vm))"
  by (simp add: vm_measure_def Let_def)

lemma measured_bytes_measurement: "measured_bytes (vm\<lparr>measurement := m\<rparr>) = measured_bytes vm"
  by (simp add: measured_bytes_def)

text \<open>
  \<^bold>\<open>C8.\<close>  \<open>measure\<close> returns the digest of the VM id and the owner followed by the
  contribution of every stored page (its token, its digest and its page id), the pages
  taken in ascending order of page id.  A second call returns the same digest and leaves
  the VM as the first call left it; the call changes nothing but the cached measurement,
  in particular no page.
\<close>

theorem measure_contract:
  "snd (vm_measure lib vm) =
     hexdigest lib (utf8 (vm_id vm) @ utf8 (owner vm) @
       concat (map (\<lambda>(pid, page). utf8 (ciphertext page) @ utf8 (mac page) @ utf8 (str_int pid))
                   (sort_key fst (mem_pages (memory vm))))) \<and>
   sorted (map fst (sort_key fst (mem_pages (memory vm)))) \<and>
   mset (sort_key fst (mem_pages (memory vm))) = mset (mem_pages (memory vm)) \<and>
   snd (vm_measure lib (fst (vm_measure lib vm))) = snd (vm_measure lib vm) \<and>
   fst (vm_measure lib (fst (vm_measure lib vm))) = fst (vm_measure lib vm) \<and>
   memory (fst (vm_measure lib vm)) = memory vm \<and>
   vcpus (fst (vm_measure lib vm)) = vcpus vm \<and>
   vm_id (fst (vm_measure lib vm)) = vm_id vm \<and>
   owner (fst (vm_measure lib vm)) = owner vm"
proof (intro conjI)
  show "snd (vm_measure lib vm) =
     hexdigest lib (utf8 (vm_id vm) @ utf8 (owner vm) @
       concat (map (\<lambda>(pid, page). utf8 (ciphertext page) @ utf8 (mac page) @ utf8 (str_int pid))
                   (sort_key fst (mem_pages (memory vm)))))"
    by (simp add: vm_measure_result measured_bytes_def page_contribution_def)
  show "sorted (map fst (sort_key fst (mem_pages (memory vm))))"
    by simp
  show "mset (sort_key fst (mem_pages (memory vm))) = mset (mem_pages (memory vm))"
    by simp
  show "snd (vm_measure lib (fst (vm_measure lib vm))) = snd (vm_measure lib vm)"
    by (simp add: vm_measure_result measured_bytes_measurement)
  show "fst (vm_measure lib (fst (vm_measure lib vm))) = fst (vm_measure lib vm)"
    by (simp add: vm_measure_result measured_bytes_measurement)
qed (simp_all add: vm_measure_result)

subsection \<open>The launch manager\<close>








section \<open>The loaded flag and ECALL dispatch\<close>

lemma ecall_unknown:
  assumes "getattr_callable inherited nm = None"
  shows "ecall lib inherited kms e nm args iv n = (Inl UnknownOperation, kms)"
  using assms by (cases args) simp_all

lemma getattr_callable_None:
  "getattr_callable inherited nm = None \<longleftrightarrow>
     nm \<in> set data_fields \<or> (map_of class_methods nm = None \<and> inherited nm = None)"
  by (auto simp: getattr_callable_def split: option.splits)

lemma getattr_own:
  assumes "map_of class_methods nm = Some m"
  shows "getattr_callable inherited nm = Some (Own m)"
proof -
  from assms have "(nm, m) \<in> set class_methods" by (rule map_of_SomeD)
  then have "nm \<notin> set data_fields" by (auto simp: class_methods_def data_fields_def)
  with assms show ?thesis by (simp add: getattr_callable_def)
qed

lemma ecall_attest:
  "ecall lib inherited kms e ''attest'' [PStr pv] iv n = (Inr (e, RReport (attest e pv n)), kms)"
proof -
  have "getattr_callable inherited ''attest'' = Some (Own M_attest)"
    by (rule getattr_own) (simp add: class_methods_def)
  then show ?thesis by (simp add: invoke_def)
qed

lemma ecall_attest_default:
  "ecall lib inherited kms e ''attest'' [] iv n = (Inr (e, RReport (attest e ''v1'' n)), kms)"
proof -
  have "getattr_callable inherited ''attest'' = Some (Own M_attest)"
    by (rule getattr_own) (simp add: class_methods_def)
  then show ?thesis by (simp add: invoke_def)
qed

lemma ecall_seal:
  "ecall lib inherited kms e ''seal'' [PStr identity, PData d] iv n =
     (case seal lib kms e identity d iv of
        (Inl err, kms') \<Rightarrow> (Inl err, kms')
      | (Inr (e', token), kms') \<Rightarrow> (Inr (e', RStr token), kms'))"
proof -
  have "getattr_callable inherited ''seal'' = Some (Own M_seal)"
    by (rule getattr_own) (simp add: class_methods_def)
  then show ?thesis by (simp add: invoke_def)
qed

lemma ecall_unseal:
  "ecall lib inherited kms e ''unseal'' [PStr identity] iv n =
     (case unseal lib kms e identity of
        (Inl err, kms') \<Rightarrow> (Inl err, kms')
      | (Inr d, kms') \<Rightarrow> (Inr (e, RData d), kms'))"
proof -
  have "getattr_callable inherited ''unseal'' = Some (Own M_unseal)"
    by (rule getattr_own) (simp add: class_methods_def)
  then show ?thesis by (simp add: invoke_def)
qed

lemma ecall_load:
  "ecall lib inherited kms e ''load'' [PSegments segs] iv n =
     (case load lib e segs of
        Inl err \<Rightarrow> (Inl err, kms)
      | Inr (e', m) \<Rightarrow> (Inr (e', RStr m), kms))"
proof -
  have "getattr_callable inherited ''load'' = Some (Own M_load)"
    by (rule getattr_own) (simp add: class_methods_def)
  then show ?thesis by (simp add: invoke_def)
qed

lemma seal_ignores_loaded:
  "seal lib kms (e\<lparr>loaded := b\<rparr>) identity d iv =
     (map_sum id (\<lambda>(e', token). (e'\<lparr>loaded := b\<rparr>, token)) (fst (seal lib kms e identity d iv)),
      snd (seal lib kms e identity d iv))"
  by (simp add: seal_def Let_def split: prod.splits sum.splits)

lemma unseal_ignores_loaded:
  "unseal lib kms (e\<lparr>loaded := b\<rparr>) identity = unseal lib kms e identity"
  by (simp add: unseal_def split: option.splits)

lemma attest_ignores_loaded: "attest (e\<lparr>loaded := b\<rparr>) pv n = attest e pv n"
  by (simp add: attest_def)

lemma workloads_not_dispatched:
  assumes "w \<in> {''keyword_search'', ''sealed_secret'', ''inference'', ''counter'',
                ''encrypted_keyword_search'', ''sealed_secret_manager'',
                ''privacy_preserving_inference'', ''integrity_protected_counter''}"
    and "inherited w = None"
  shows "getattr_callable inherited w = None"
proof -
  from assms(1) have "map_of class_methods w = None"
    by (elim insertE emptyE) (simp_all add: class_methods_def)
  with assms(2) show ?thesis by (simp add: getattr_callable_def)
qed

text \<open>
  \<^bold>\<open>C3 (as the code has it).\<close>  Of the operations of an enclave only \<open>enter\<close> tests the
  \<open>loaded\<close> flag and fails on an enclave that is not loaded.  \<open>attest\<close>, \<open>unseal\<close> and
  \<open>seal\<close> never read the flag: changing it changes nothing in their results but the flag
  carried along.  \<open>ecall\<close> does not read it either; it calls whatever callable attribute
  the name denotes, \<open>attest\<close>, \<open>seal\<close> and \<open>unseal\<close> as well as \<open>load\<close>.  It fails with
  \<open>UnknownOperation\<close> for every name that is not a callable attribute of the enclave
  object, that is a data field or a name that is neither a method of the class nor a
  callable inherited from \<open>object\<close>; the names of the demo workloads are such names.
\<close>

theorem enclave_gate:
  "(\<not> loaded e \<longrightarrow> enter e handler = Inl EnclaveNotInitialized) \<and>
   attest (e\<lparr>loaded := b\<rparr>) pv n = attest e pv n \<and>
   unseal lib kms (e\<lparr>loaded := b\<rparr>) identity = unseal lib kms e identity \<and>
   seal lib kms (e\<lparr>loaded := b\<rparr>) identity d iv =
     (map_sum id (\<lambda>(e', token). (e'\<lparr>loaded := b\<rparr>, token)) (fst (seal lib kms e identity d iv)),
      snd (seal lib kms e identity d iv)) \<and>
   ecall lib inherited kms e ''attest'' [PStr pv] iv n = (Inr (e, RReport (attest e pv n)), kms) \<and>
   ecall lib inherited kms e ''seal'' [PStr identity, PData d] iv n =
     (case seal lib kms e identity d iv of
        (Inl err, kms') \<Rightarrow> (Inl err, kms')
      | (Inr (e', token), kms') \<Rightarrow> (Inr (e', RStr token), kms')) \<and>
   ecall lib inherited kms e ''unseal'' [PStr identity] iv n =
     (case unseal lib kms e identity of
        (Inl err, kms') \<Rightarrow> (Inl err, kms')
      | (Inr d, kms') \<Rightarrow> (Inr (e, RData d), kms')) \<and>
   ecall lib inherited kms e ''load'' [PSegments segs] iv n =
     (case load lib e segs of
        Inl err \<Rightarrow> (Inl err, kms)
      | Inr (e', m) \<Rightarrow> (Inr (e', RStr m), kms)) \<and>
   (getattr_callable inherited nm = None \<longleftrightarrow>
      nm \<in> set data_fields \<or> (map_of class_methods nm = None \<and> inherited nm = None)) \<and>
   (getattr_callable inherited nm = None \<longrightarrow>
      ecall lib inherited kms e nm args iv n = (Inl UnknownOperation, kms)) \<and>
   (w \<in> {''keyword_search'', ''sealed_secret'', ''inference'', ''counter'',
          ''encrypted_keyword_search'', ''sealed_secret_manager'',
          ''privacy_preserving_inference'', ''integrity_protected_counter''} \<and>
    inherited w = None \<longrightarrow>
      ecall lib inherited kms e w args iv n = (Inl UnknownOperation, kms))"
proof (intro conjI impI)
  assume "\<not> loaded e"
  then show "enter e handler = Inl EnclaveNotInitialized" by (simp add: enter_def)
next
  show "attest (e\<lparr>loaded := b\<rparr>) pv n = attest e pv n" by (rule attest_ignores_loaded)
  show "unseal lib kms (e\<lparr>loaded := b\<rparr>) identity = unseal lib kms e identity"
    by (rule unseal_ignores_loaded)
  show "seal lib kms (e\<lparr>loaded := b\<rparr>) identity d iv =
     (map_sum id (\<lambda>(e', token). (e'\<lparr>loaded := b\<rparr>, token)) (fst (seal lib kms e identity d iv)),
      snd (seal lib kms e identity d iv))"
    by (rule seal_ignores_loaded)
  show "ecall lib inherited kms e ''attest'' [PStr pv] iv n = (Inr (e, RReport (attest e pv n)), kms)"
    by (rule ecall_attest)
  show "ecall lib inherited kms e ''seal'' [PStr identity, PData d] iv n =
     (case seal lib kms e identity d iv of
        (Inl err, kms') \<Rightarrow> (Inl err, kms')
      | (Inr (e', token), kms') \<Rightarrow> (Inr (e', RStr token), kms'))"
    by (rule ecall_seal)
  show "ecall lib inherited kms e ''unseal'' [PStr identity] iv n =
     (case unseal lib kms e identity of
        (Inl err, kms') \<Rightarrow> (Inl err, kms')
      | (Inr d, kms') \<Rightarrow> (Inr (e, RData d), kms'))"
    by (rule ecall_unseal)
  show "ecall lib inherited kms e ''load'' [PSegments segs] iv n =
     (case load lib e segs of
        Inl err \<Rightarrow> (Inl err, kms)
      | Inr (e', m) \<Rightarrow> (Inr (e', RStr m), kms))"
    by (rule ecall_load)
  show "getattr_callable inherited nm = None \<longleftrightarrow>
      nm \<in> set data_fields \<or> (map_of class_methods nm = None \<and> inherited nm = None)"
    by (rule getattr_callable_None)
next
  assume "getattr_callable inherited nm = None"
  then show "ecall lib inherited kms e nm args iv n = (Inl UnknownOperation, kms)"
    by (rule ecall_unknown)
next
  assume "w \<in> {''keyword_search'', ''sealed_secret'', ''inference'', ''counter'',
          ''encrypted_keyword_search'', ''sealed_secret_manager'',
          ''privacy_preserving_inference'', ''integrity_protected_counter''} \<and>
    inherited w = None"
  then have "w \<in> {''keyword_search'', ''sealed_secret'', ''inference'', ''counter'',
          ''encrypted_keyword_search'', ''sealed_secret_manager'',
          ''privacy_preserving_inference'', ''integrity_protected_counter''}"
    and "inherited w = None"
    by (rule conjunct1, rule conjunct2)
  then have "getattr_callable inherited w = None"
    by (rule workloads_not_dispatched)
  then show "ecall lib inherited kms e w args iv n = (Inl UnknownOperation, kms)"
    by (rule ecall_unknown)
qed

theorem enclave_gate_witness:
  "enter (new_enclave ''demo'' ''lab'') name = Inl EnclaveNotInitialized \<and>
   ecall toy_lib (\<lambda>_. None) demo_kms (new_enclave ''demo'' ''lab'') ''keyword_search'' []
     (replicate 16 7) ''n0'' = (Inl UnknownOperation, demo_kms) \<and>
   ecall toy_lib (\<lambda>_. None) demo_kms (new_enclave ''demo'' ''lab'') ''mrenclave'' []
     (replicate 16 7) ''n0'' = (Inl UnknownOperation, demo_kms)"
proof -
  note g = enclave_gate [where e = "new_enclave ''demo'' ''lab''" and handler = name
      and lib = toy_lib and kms = demo_kms and inherited = "\<lambda>_. None"
      and iv = "replicate 16 7" and n = "''n0''" and nm = "''mrenclave''" and args = "[]"
      and w = "''keyword_search''"]
  note rest = g [THEN conjunct2, THEN conjunct2, THEN conjunct2, THEN conjunct2, THEN conjunct2,
      THEN conjunct2, THEN conjunct2, THEN conjunct2, THEN conjunct2]
  have u: "\<not> loaded (new_enclave ''demo'' ''lab'')" by (simp add: new_enclave_def)
  have f: "getattr_callable (\<lambda>_. None) ''mrenclave'' = None"
    by (simp add: getattr_callable_def data_fields_def)
  have m: "''keyword_search'' \<in> {''keyword_search'', ''sealed_secret'', ''inference'', ''counter'',
          ''encrypted_keyword_search'', ''sealed_secret_manager'',
          ''privacy_preserving_inference'', ''integrity_protected_counter''} \<and>
        (None :: (bytes pyval list \<Rightarrow> kms_mock \<Rightarrow> simulated_enclave \<Rightarrow> bytes outcome) option) = None"
    by simp
  note c1 = g [THEN conjunct1, THEN mp, OF u]
  note c2 = rest [THEN conjunct1, THEN mp, OF f]
  note c3 = rest [THEN conjunct2, THEN mp, OF m]
  from c1 c2 c3 show ?thesis by (intro conjI)
qed

text \<open>The claim as stated lets \<open>attest\<close> and ECALL dispatch fail while \<open>loaded\<close> is false.
  On a newly constructed enclave, which is not loaded, \<open>ecall("attest")\<close> returns a
  report.\<close>

theorem unloaded_attest_counterexample:
  "\<not> loaded (new_enclave ''demo'' ''lab'') \<and>
   ecall toy_lib (\<lambda>_. None) demo_kms (new_enclave ''demo'' ''lab'') ''attest'' [] (replicate 16 7) ''n0''
     = (Inr (new_enclave ''demo'' ''lab'',
             RReport \<lparr> report_mrenclave = [], report_signer = ''lab'', nonce = ''n0'',
                       policy_version = ''v1'' \<rparr>), demo_kms)"
proof
  show "\<not> loaded (new_enclave ''demo'' ''lab'')" by (simp add: new_enclave_def)
  have "attest (new_enclave ''demo'' ''lab'') ''v1'' ''n0''
      = \<lparr> report_mrenclave = [], report_signer = ''lab'', nonce = ''n0'', policy_version = ''v1'' \<rparr>"
    by (simp add: attest_def new_enclave_def)
  then show "ecall toy_lib (\<lambda>_. None) demo_kms (new_enclave ''demo'' ''lab'') ''attest'' [] (replicate 16 7) ''n0''
     = (Inr (new_enclave ''demo'' ''lab'',
             RReport \<lparr> report_mrenclave = [], report_signer = ''lab'', nonce = ''n0'',
                       policy_version = ''v1'' \<rparr>), demo_kms)"
    by (simp only: ecall_attest_default)
qed

end
